theory Spec2Isabelle
  imports Complex_Main "HOL-Library.Log_Nat"
begin

section \<open>Values of the host language and of the toolkit\<close>

text \<open>
  The editor is one Python file, \<^verbatim>\<open>src/main.py\<close>, on top of PyQt5. Every method is
  modelled as a function from the window state to \<open>py_error + state\<close>: \<open>Inl\<close> is an
  exception that leaves the method, \<open>Inr\<close> the state after a normal return.
\<close>

datatype py_error = ZeroDivisionError | IndexError | AttributeError | TypeError | KeyError

definition bind :: "py_error + 'a \<Rightarrow> ('a \<Rightarrow> py_error + 'b) \<Rightarrow> py_error + 'b" where
  "bind m f = (case m of Inl e \<Rightarrow> Inl e | Inr v \<Rightarrow> f v)"

subsection \<open>Python floats\<close>

text \<open>
  A finite Python float is a rational number. \<open>round_double\<close> rounds a rational to the
  nearest IEEE-754 binary64 value, ties to even, for the normal range (no overflow,
  no subnormals): the quotients of the program are quotients of pixel counts and
  coordinates, far inside that range. \<open>py_truediv\<close> is Python's \<^verbatim>\<open>a / b\<close> on operands
  that are exactly representable (integers below \<open>2^53\<close>, or floats), and \<open>py_int\<close> is
  \<^verbatim>\<open>int(x)\<close>, truncation towards zero.
\<close>

definition pow2 :: "int \<Rightarrow> rat" where
  "pow2 k = (if 0 \<le> k then 2 ^ nat k else 1 / 2 ^ nat (- k))"

definition ilog2 :: "rat \<Rightarrow> int" where
  "ilog2 q = (if 1 \<le> q then int (floorlog 2 (nat \<lfloor>q\<rfloor>)) - 1
              else - int (floorlog 2 (nat (\<lceil>1 / q\<rceil> - 1))))"

definition round_half_even :: "rat \<Rightarrow> int" where
  "round_half_even v =
     (let f = \<lfloor>v\<rfloor>; d = v - of_int f
      in if d < 1 / 2 then f else if 1 / 2 < d then f + 1
         else if even f then f else f + 1)"

definition round_double :: "rat \<Rightarrow> rat" where
  "round_double q =
     (if q = 0 then 0
      else let a = \<bar>q\<bar>; k = ilog2 a - 52
           in sgn q * of_int (round_half_even (a / pow2 k)) * pow2 k)"

definition py_truediv :: "rat \<Rightarrow> rat \<Rightarrow> py_error + rat" where
  "py_truediv a b = (if b = 0 then Inl ZeroDivisionError else Inr (round_double (a / b)))"

definition py_int :: "rat \<Rightarrow> int" where
  "py_int v = (if 0 \<le> v then \<lfloor>v\<rfloor> else \<lceil>v\<rceil>)"

subsection \<open>QPoint, QRect, QPixmap\<close>

type_synonym qpoint = "int \<times> int"

text \<open>
  Python's truth value of a \<^verbatim>\<open>QPoint\<close> attribute that may hold \<^verbatim>\<open>None\<close>: PyQt5 gives
  \<^verbatim>\<open>QPoint.__bool__\<close> as \<^verbatim>\<open>not isNull()\<close>, so the origin is falsy like \<^verbatim>\<open>None\<close>.
\<close>

definition qpoint_truthy :: "qpoint option \<Rightarrow> bool" where
  "qpoint_truthy p = (case p of None \<Rightarrow> False | Some q \<Rightarrow> q \<noteq> (0, 0))"

text \<open>
  A \<^verbatim>\<open>QRect\<close> stores its two corners; width and height count the pixels between them,
  so \<^verbatim>\<open>QRect(x, y, w, h)\<close> has right edge \<open>x + w - 1\<close>.
\<close>

record qrect =
  qr_x1 :: int
  qr_y1 :: int
  qr_x2 :: int
  qr_y2 :: int

definition QRect :: "int \<Rightarrow> int \<Rightarrow> int \<Rightarrow> int \<Rightarrow> qrect" where
  "QRect x y w h = \<lparr>qr_x1 = x, qr_y1 = y, qr_x2 = x + w - 1, qr_y2 = y + h - 1\<rparr>"

definition QRect_points :: "qpoint \<Rightarrow> qpoint \<Rightarrow> qrect" where
  "QRect_points p q = \<lparr>qr_x1 = fst p, qr_y1 = snd p, qr_x2 = fst q, qr_y2 = snd q\<rparr>"

definition rect_width :: "qrect \<Rightarrow> int" where
  "rect_width r = qr_x2 r - qr_x1 r + 1"

definition rect_height :: "qrect \<Rightarrow> int" where
  "rect_height r = qr_y2 r - qr_y1 r + 1"

definition topLeft :: "qrect \<Rightarrow> qpoint" where
  "topLeft r = (qr_x1 r, qr_y1 r)"

definition topRight :: "qrect \<Rightarrow> qpoint" where
  "topRight r = (qr_x2 r, qr_y1 r)"

definition bottomLeft :: "qrect \<Rightarrow> qpoint" where
  "bottomLeft r = (qr_x1 r, qr_y2 r)"

definition bottomRight :: "qrect \<Rightarrow> qpoint" where
  "bottomRight r = (qr_x2 r, qr_y2 r)"

definition setTopLeft :: "qpoint \<Rightarrow> qrect \<Rightarrow> qrect" where
  "setTopLeft p r = r\<lparr>qr_x1 := fst p, qr_y1 := snd p\<rparr>"

definition setTopRight :: "qpoint \<Rightarrow> qrect \<Rightarrow> qrect" where
  "setTopRight p r = r\<lparr>qr_x2 := fst p, qr_y1 := snd p\<rparr>"

definition setBottomLeft :: "qpoint \<Rightarrow> qrect \<Rightarrow> qrect" where
  "setBottomLeft p r = r\<lparr>qr_x1 := fst p, qr_y2 := snd p\<rparr>"

definition setBottomRight :: "qpoint \<Rightarrow> qrect \<Rightarrow> qrect" where
  "setBottomRight p r = r\<lparr>qr_x2 := fst p, qr_y2 := snd p\<rparr>"

definition moveTo :: "int \<Rightarrow> int \<Rightarrow> qrect \<Rightarrow> qrect" where
  "moveTo x y r = \<lparr>qr_x1 = x, qr_y1 = y,
                   qr_x2 = qr_x2 r + (x - qr_x1 r), qr_y2 = qr_y2 r + (y - qr_y1 r)\<rparr>"

definition translated :: "int \<Rightarrow> int \<Rightarrow> qrect \<Rightarrow> qrect" where
  "translated dx dy r = \<lparr>qr_x1 = qr_x1 r + dx, qr_y1 = qr_y1 r + dy,
                         qr_x2 = qr_x2 r + dx, qr_y2 = qr_y2 r + dy\<rparr>"

definition isValid :: "qrect \<Rightarrow> bool" where
  "isValid r = (qr_x1 r \<le> qr_x2 r \<and> qr_y1 r \<le> qr_y2 r)"

text \<open>\<^verbatim>\<open>QRect.contains(point)\<close>, edges included; a rectangle with swapped corners is read
  with its corners in order, as Qt does.\<close>

definition contains :: "qrect \<Rightarrow> qpoint \<Rightarrow> bool" where
  "contains r p =
     (let l = (if qr_x2 r < qr_x1 r - 1 then qr_x2 r else qr_x1 r);
          rr = (if qr_x2 r < qr_x1 r - 1 then qr_x1 r else qr_x2 r);
          t = (if qr_y2 r < qr_y1 r - 1 then qr_y2 r else qr_y1 r);
          b = (if qr_y2 r < qr_y1 r - 1 then qr_y1 r else qr_y2 r)
      in l \<le> fst p \<and> fst p \<le> rr \<and> t \<le> snd p \<and> snd p \<le> b)"

text \<open>Python's truth value of a \<^verbatim>\<open>QRect\<close> attribute that may hold \<^verbatim>\<open>None\<close>
  (\<^verbatim>\<open>QRect.__bool__\<close> is \<^verbatim>\<open>isValid()\<close>).\<close>

definition qrect_truthy :: "qrect option \<Rightarrow> bool" where
  "qrect_truthy r = (case r of None \<Rightarrow> False | Some q \<Rightarrow> isValid q)"

text \<open>A pixel is (red, green, blue, alpha), each in \<open>0..255\<close>; alpha \<open>0\<close> is fully
  transparent. A \<^verbatim>\<open>QPixmap\<close> is its size and its pixels, row by row.\<close>

type_synonym rgba = "nat \<times> nat \<times> nat \<times> nat"

definition alpha :: "rgba \<Rightarrow> nat" where
  "alpha c = snd (snd (snd c))"

definition Qt_transparent :: rgba where
  "Qt_transparent = (0, 0, 0, 0)"

definition Qt_white :: rgba where
  "Qt_white = (255, 255, 255, 255)"

definition Qt_black :: rgba where
  "Qt_black = (0, 0, 0, 255)"

record qpixmap =
  pm_width :: int
  pm_height :: int
  pm_pixels :: "rgba list"

definition QPixmap :: "int \<Rightarrow> int \<Rightarrow> rgba \<Rightarrow> qpixmap" where
  "QPixmap w h c = \<lparr>pm_width = w, pm_height = h, pm_pixels = replicate (nat (w * h)) c\<rparr>"

definition fill :: "rgba \<Rightarrow> qpixmap \<Rightarrow> qpixmap" where
  "fill c pm = pm\<lparr>pm_pixels := replicate (length (pm_pixels pm)) c\<rparr>"


text \<open>\<^verbatim>\<open>QPixmap.isNull()\<close>: a pixmap of width or height \<open>0\<close> has no pixels. \<^verbatim>\<open>toImage()\<close> of
  it is a null image, whose \<^verbatim>\<open>bits()\<close> is \<^verbatim>\<open>None\<close>.\<close>

definition isNull :: "qpixmap \<Rightarrow> bool" where
  "isNull pm \<longleftrightarrow> pm_width pm \<le> 0 \<or> pm_height pm \<le> 0"

subsection \<open>What the editor asks of Qt and OpenCV\<close>

text \<open>
  Rasterisation, resampling, the pixel filters and the font metrics are not code of the
  editor. They are taken as a parameter \<open>qt_env\<close>: every theorem below holds for every
  such environment, and the examples that need pixels use \<open>simple_qt\<close>.
\<close>

datatype pen_style = SolidLine | DashLine | DotLine

record qpainter =
  p_color :: rgba
  p_width :: int
  p_style :: pen_style
  p_opacity :: rat

definition default_painter :: qpainter where
  "default_painter = \<lparr>p_color = Qt_black, p_width = 1, p_style = SolidLine, p_opacity = 1\<rparr>"

datatype paint_op =
    DrawPixmap int int qpixmap
  | DrawLine qpoint qpoint
  | DrawRect qrect
  | DrawEllipse qrect
  | DrawPolygon "qpoint list"

type_synonym qfont = "string \<times> int"

record qt_env =
  paint :: "qpainter \<Rightarrow> paint_op \<Rightarrow> qpixmap \<Rightarrow> qpixmap"
  scaled :: "qpixmap \<Rightarrow> int \<Rightarrow> int \<Rightarrow> qpixmap"
  transformed :: "qpixmap \<Rightarrow> int \<Rightarrow> int \<Rightarrow> qpixmap"
  copy_rect :: "qpixmap \<Rightarrow> qrect \<Rightarrow> qpixmap"
  normalized :: "qrect \<Rightarrow> qrect"
  thresholding :: "qpixmap \<Rightarrow> int \<Rightarrow> qpixmap"
  sharpening :: "qpixmap \<Rightarrow> int \<Rightarrow> qpixmap"
  powerlaw :: "qpixmap \<Rightarrow> int \<Rightarrow> qpixmap"
  font_height :: "qfont \<Rightarrow> int"
  averageCharWidth :: "qfont \<Rightarrow> int"

section \<open>The document and the window state\<close>

text \<open>One entry of \<^verbatim>\<open>CanvasWindow.images\<close>: the dictionary \<^verbatim>\<open>import_image\<close> builds (lines
  1718-1724). The dictionaries that \<^verbatim>\<open>open_project\<close> builds (lines 1520-1525) have no
  key \<^verbatim>\<open>'original_pixmap'\<close>: the field is \<open>None\<close> then, and reading it raises \<^verbatim>\<open>KeyError\<close>.\<close>

record img_data =
  img_pixmap :: qpixmap
  original_pixmap :: "qpixmap option"
  img_x :: int
  img_y :: int
  img_rect :: qrect

text \<open>One entry of \<^verbatim>\<open>TextTool.text_objects\<close>.\<close>

record text_object =
  to_position :: "qpoint option"
  to_text :: string
  to_font :: qfont
  to_color :: rgba
  to_opacity :: rat

text \<open>The dictionary \<^verbatim>\<open>save_state\<close>, \<^verbatim>\<open>undo_action\<close> and \<^verbatim>\<open>redo_action\<close> put on a stack.\<close>

record snapshot =
  s_images :: "img_data list"
  s_selected_image_index :: "nat option"
  s_pixmap :: qpixmap
  s_overlay_pixmap :: qpixmap
  s_text_objects :: "text_object list"
  threshold_value :: int
  sharp_value :: int
  gamma_value :: int

text \<open>
  The tools. \<^verbatim>\<open>is_drawing\<close> and \<^verbatim>\<open>is_erasing\<close> are not set by the constructors (the
  assignment in \<^verbatim>\<open>DrawingTool.__init__\<close> is commented out): \<open>None\<close> is the attribute
  that does not exist yet, and reading it raises \<^verbatim>\<open>AttributeError\<close>.
\<close>

record drawing_tool_state =
  dt_last_pos :: "qpoint option"
  dt_pen_color :: rgba
  dt_pen_width :: int
  dt_pen_opacity :: rat
  dt_pen_style :: pen_style
  is_drawing :: "bool option"

record erase_tool_state =
  et_last_pos :: "qpoint option"
  et_pen_width :: int
  et_pen_style :: pen_style
  is_erasing :: "bool option"

record shape_tool_state =
  sh_start_pos :: "qpoint option"
  shape_type :: string
  sh_pen_color :: rgba
  sh_pen_width :: int
  sh_pen_opacity :: rat
  sh_pen_style :: pen_style

record text_tool_state =
  current_text :: string
  text_objects :: "text_object list"
  current_font :: qfont
  tt_pen_color :: rgba
  tt_pen_opacity :: rat
  is_active :: bool
  text_rect :: "qrect option"
  tt_start_pos :: "qpoint option"

datatype anchor = TopLeft | TopRight | BottomLeft | BottomRight

text \<open>
  \<^verbatim>\<open>CanvasWindow\<close>. \<open>anchor_clicked\<close> holds \<^verbatim>\<open>False\<close>, \<^verbatim>\<open>None\<close> or the name of a corner;
  the code only tests its truth value and compares it with the four names, so the two
  falsy values are one \<open>None\<close>. \<open>last_mouse_position\<close> is not set by the constructor.
  The three sliders are the values of \<^verbatim>\<open>threshold_slider\<close>, \<^verbatim>\<open>sharp_slider\<close> and
  \<^verbatim>\<open>gamma_slider\<close>; \<open>current_scale_factor\<close> is the float of the zoom.
\<close>

record canvas_window =
  width :: int
  height :: int
  canvas_x :: int
  canvas_y :: int
  pixmap :: qpixmap
  overlay_pixmap :: qpixmap
  undo_stack :: "snapshot list"
  redo_stack :: "snapshot list"
  drag_mode :: bool
  scale_mode :: bool
  drawing_mode :: bool
  eraser_mode :: bool
  shape_mode :: bool
  text_mode :: bool
  crop_mode :: bool
  images :: "img_data list"
  selected_image_index :: "nat option"
  anchor_clicked :: "anchor option"
  last_mouse_position :: "qpoint option"
  drawing_tool :: drawing_tool_state
  erase_tool :: erase_tool_state
  shape_tool :: shape_tool_state
  text_tool :: text_tool_state
  crop_start_point :: "qpoint option"
  crop_end_point :: "qpoint option"
  crop_rect :: "qrect option"
  threshold_slider :: int
  sharp_slider :: int
  gamma_slider :: int
  current_scale_factor :: rat

datatype mouse_button = LeftButton | RightButton | MiddleButton

record mouse_event =
  ev_pos :: qpoint
  ev_button :: mouse_button
  ev_buttons :: "mouse_button set"

text \<open>\<^verbatim>\<open>CanvasWindow.__init__\<close> for a canvas of the given size (lines 650-703, with the
  slider defaults of lines 1092-1128).\<close>

definition init_window :: "int \<Rightarrow> int \<Rightarrow> canvas_window" where
  "init_window w h =
     \<lparr>width = w, height = h, canvas_x = 100, canvas_y = 100,
      pixmap = QPixmap w h Qt_white, overlay_pixmap = QPixmap w h Qt_transparent,
      undo_stack = [], redo_stack = [],
      drag_mode = False, scale_mode = False, drawing_mode = False, eraser_mode = False,
      shape_mode = False, text_mode = False, crop_mode = False,
      images = [], selected_image_index = None, anchor_clicked = None,
      last_mouse_position = None,
      drawing_tool = \<lparr>dt_last_pos = None, dt_pen_color = Qt_black, dt_pen_width = 1,
                       dt_pen_opacity = 1, dt_pen_style = SolidLine, is_drawing = None\<rparr>,
      erase_tool = \<lparr>et_last_pos = None, et_pen_width = 10, et_pen_style = SolidLine,
                     is_erasing = None\<rparr>,
      shape_tool = \<lparr>sh_start_pos = None, shape_type = ''Rectangle'', sh_pen_color = Qt_black,
                     sh_pen_width = 1, sh_pen_opacity = 1, sh_pen_style = SolidLine\<rparr>,
      text_tool = \<lparr>current_text = [], text_objects = [], current_font = (''Arial'', 12),
                    tt_pen_color = Qt_black, tt_pen_opacity = 1, is_active = False,
                    text_rect = None, tt_start_pos = None\<rparr>,
      crop_start_point = None, crop_end_point = None, crop_rect = None,
      threshold_slider = 127, sharp_slider = 0, gamma_slider = 10,
      current_scale_factor = 1\<rparr>"

section \<open>Screen to canvas coordinates\<close>

text \<open>
  \<^verbatim>\<open>DrawingTool.map_to_canvas\<close> (lines 414-432). Both scale factors are computed before
  either coordinate, so a pixmap of width or height \<open>0\<close> raises before anything else; a
  window width of \<open>0\<close> gives the scale \<open>0.0\<close> and the second division raises.
\<close>

definition DrawingTool_map_to_canvas :: "canvas_window \<Rightarrow> qpoint \<Rightarrow> py_error + qpoint" where
  "DrawingTool_map_to_canvas c widget_pos =
     (let offset_x = canvas_x c; offset_y = canvas_y c
      in bind (py_truediv (of_int (width c)) (of_int (pm_width (pixmap c)))) (\<lambda>scale_x.
         bind (py_truediv (of_int (height c)) (of_int (pm_height (pixmap c)))) (\<lambda>scale_y.
         bind (py_truediv (of_int (fst widget_pos - offset_x)) scale_x) (\<lambda>cx.
         bind (py_truediv (of_int (snd widget_pos - offset_y)) scale_y) (\<lambda>cy.
           let cx' = max 0 (min cx (of_int (pm_width (pixmap c))));
               cy' = max 0 (min cy (of_int (pm_height (pixmap c))))
           in Inr (py_int cx', py_int cy'))))))"

text \<open>\<^verbatim>\<open>ShapeTool.map_to_canvas\<close> (lines 325-335).\<close>

definition ShapeTool_map_to_canvas :: "canvas_window \<Rightarrow> qpoint \<Rightarrow> py_error + qpoint" where
  "ShapeTool_map_to_canvas c widget_pos =
     (let offset_x = canvas_x c; offset_y = canvas_y c
      in bind (py_truediv (of_int (width c)) (of_int (pm_width (pixmap c)))) (\<lambda>scale_x.
         bind (py_truediv (of_int (height c)) (of_int (pm_height (pixmap c)))) (\<lambda>scale_y.
         bind (py_truediv (of_int (fst widget_pos - offset_x)) scale_x) (\<lambda>cx.
         bind (py_truediv (of_int (snd widget_pos - offset_y)) scale_y) (\<lambda>cy.
           let cx' = max 0 (min cx (of_int (pm_width (pixmap c))));
               cy' = max 0 (min cy (of_int (pm_height (pixmap c))))
           in Inr (py_int cx', py_int cy'))))))"

text \<open>\<^verbatim>\<open>EraseTool.map_to_canvas\<close> (lines 478-488).\<close>

definition EraseTool_map_to_canvas :: "canvas_window \<Rightarrow> qpoint \<Rightarrow> py_error + qpoint" where
  "EraseTool_map_to_canvas c widget_pos =
     (let offset_x = canvas_x c; offset_y = canvas_y c
      in bind (py_truediv (of_int (width c)) (of_int (pm_width (pixmap c)))) (\<lambda>scale_x.
         bind (py_truediv (of_int (height c)) (of_int (pm_height (pixmap c)))) (\<lambda>scale_y.
         bind (py_truediv (of_int (fst widget_pos - offset_x)) scale_x) (\<lambda>cx.
         bind (py_truediv (of_int (snd widget_pos - offset_y)) scale_y) (\<lambda>cy.
           let cx' = max 0 (min cx (of_int (pm_width (pixmap c))));
               cy' = max 0 (min cy (of_int (pm_height (pixmap c))))
           in Inr (py_int cx', py_int cy'))))))"

section \<open>History\<close>

text \<open>
  \<^verbatim>\<open>update_histogram\<close> (lines 2264-2304) only reads the document and redraws a plot.
  What the model keeps of it is the early return, the indexing of \<^verbatim>\<open>self.images\<close>, which
  raises when the selected index is past the end of the list, and lines 2274-2281:
  when the displayed pixmap of the selected image is empty, \<^verbatim>\<open>q_image.bits()\<close> is \<^verbatim>\<open>None\<close>
  and \<^verbatim>\<open>ptr.setsize\<close> raises \<^verbatim>\<open>AttributeError\<close>.
\<close>

definition update_histogram :: "canvas_window \<Rightarrow> py_error + canvas_window" where
  "update_histogram c =
     (case selected_image_index c of
        None \<Rightarrow> Inr c
      | Some i \<Rightarrow>
          if images c = [] then Inr c
          else if i < length (images c) then
            (if isNull (img_pixmap (images c ! i)) then Inl AttributeError else Inr c)
          else Inl IndexError)"

text \<open>
  The dictionary built at lines 1554-1582 (and again at 1594-1622 and 1644-1672).
  \<open>copy_dict\<close> is one element of the list comprehension of lines 1555-1564: reading
  \<^verbatim>\<open>img['original_pixmap']\<close> raises \<^verbatim>\<open>KeyError\<close> for a dictionary without that key, and the
  comprehension stops at the first such image. \<^verbatim>\<open>QPixmap.copy()\<close> and \<^verbatim>\<open>QRect(rect)\<close> give
  objects with the same value; in this value model the copy is the value itself.
  Section "Snapshots in the store" models the same lines over a store with addresses,
  where a copy is a new object.
\<close>

definition copy_dict :: "img_data \<Rightarrow> py_error + img_data" where
  "copy_dict img =
     (case original_pixmap img of
        None \<Rightarrow> Inl KeyError
      | Some orig \<Rightarrow>
          Inr \<lparr>img_pixmap = img_pixmap img, original_pixmap = Some orig,
               img_x = img_x img, img_y = img_y img, img_rect = img_rect img\<rparr>)"

primrec copy_dicts :: "img_data list \<Rightarrow> py_error + img_data list" where
  "copy_dicts [] = Inr []"
| "copy_dicts (img # rest) =
     bind (copy_dict img) (\<lambda>d. bind (copy_dicts rest) (\<lambda>ds. Inr (d # ds)))"

definition current_state :: "canvas_window \<Rightarrow> py_error + snapshot" where
  "current_state c =
     bind (copy_dicts (images c)) (\<lambda>imgs.
       Inr \<lparr>s_images = imgs,
            s_selected_image_index = selected_image_index c,
            s_pixmap = pixmap c,
            s_overlay_pixmap = overlay_pixmap c,
            s_text_objects = map (\<lambda>t. \<lparr>to_position = to_position t, to_text = to_text t,
                                          to_font = to_font t, to_color = to_color t,
                                          to_opacity = to_opacity t\<rparr>)
                               (text_objects (text_tool c)),
            threshold_value = threshold_slider c,
            sharp_value = sharp_slider c,
            gamma_value = gamma_slider c\<rparr>)"

text \<open>The value of that dictionary when no key is missing is the document as it is
  (lemma \<open>current_state_eq\<close> below); \<open>has_originals\<close> says that no key is missing.\<close>

definition has_originals :: "canvas_window \<Rightarrow> bool" where
  "has_originals c = list_all (\<lambda>img. original_pixmap img \<noteq> None) (images c)"

definition snapshot_of :: "canvas_window \<Rightarrow> snapshot" where
  "snapshot_of c =
     \<lparr>s_images = images c,
      s_selected_image_index = selected_image_index c,
      s_pixmap = pixmap c,
      s_overlay_pixmap = overlay_pixmap c,
      s_text_objects = text_objects (text_tool c),
      threshold_value = threshold_slider c,
      sharp_value = sharp_slider c,
      gamma_value = gamma_slider c\<rparr>"

text \<open>\<^verbatim>\<open>CanvasWindow.save_state\<close> (lines 1552-1589): the redo stack is cleared at line
  1584, before the test of line 1588.\<close>

definition save_state :: "canvas_window \<Rightarrow> py_error + canvas_window" where
  "save_state c =
     bind (current_state c) (\<lambda>state.
       let c1 = c\<lparr>undo_stack := undo_stack c @ [state]\<rparr>;
           c2 = c1\<lparr>redo_stack := []\<rparr>
       in bind (update_histogram c2) (\<lambda>c3.
            if \<not> drag_mode c3 \<and> anchor_clicked c3 = None \<and> \<not> drawing_mode c3
            then Inr (c3\<lparr>redo_stack := []\<rparr>)
            else Inr c3))"

text \<open>\<^verbatim>\<open>resize_pixmap\<close> (lines 2306-2308).\<close>

definition resize_pixmap :: "qt_env \<Rightarrow> qpixmap \<Rightarrow> int \<times> int \<Rightarrow> qpixmap" where
  "resize_pixmap env source_pixmap target_size =
     scaled env source_pixmap (fst target_size) (snd target_size)"

definition pixmap_size :: "qpixmap \<Rightarrow> int \<times> int" where
  "pixmap_size pm = (pm_width pm, pm_height pm)"

text \<open>
  The three filter handlers connected to the sliders' \<^verbatim>\<open>valueChanged\<close> signal (lines
  1095, 1105, 1129). Each returns at once without a selected image, and otherwise
  takes a checkpoint and replaces the displayed pixmap of the selected image by the
  filtered original, resized to the displayed size. Reading \<^verbatim>\<open>'original_pixmap'\<close> raises
  \<^verbatim>\<open>KeyError\<close> when the key is missing, and the conversion of an empty original pixmap
  raises \<^verbatim>\<open>AttributeError\<close> (\<^verbatim>\<open>ptr.setsize\<close> on \<^verbatim>\<open>None\<close>, lines 2326-2327, 2424-2425,
  2478-2479).
\<close>

definition update_thresholding_image :: "qt_env \<Rightarrow> canvas_window \<Rightarrow> py_error + canvas_window" where
  "update_thresholding_image env c =
     (case selected_image_index c of
        None \<Rightarrow> Inr c
      | Some i \<Rightarrow>
          if images c = [] then Inr c
          else bind (save_state c) (\<lambda>c1.
            if i < length (images c1) then
              let selected_image = images c1 ! i
              in (case original_pixmap selected_image of
                    None \<Rightarrow> Inl KeyError
                  | Some original \<Rightarrow>
                      if isNull original then Inl AttributeError
                      else
                        let current_size = pixmap_size (img_pixmap selected_image);
                            threshold_pixmap = thresholding env original (threshold_slider c1);
                            resized_pixmap = resize_pixmap env threshold_pixmap current_size
                        in update_histogram
                             (c1\<lparr>images := (images c1)
                                   [i := selected_image\<lparr>img_pixmap := resized_pixmap\<rparr>]\<rparr>))
            else Inl IndexError))"

definition update_sharpening_image :: "qt_env \<Rightarrow> canvas_window \<Rightarrow> py_error + canvas_window" where
  "update_sharpening_image env c =
     (case selected_image_index c of
        None \<Rightarrow> Inr c
      | Some i \<Rightarrow>
          if images c = [] then Inr c
          else bind (save_state c) (\<lambda>c1.
            if i < length (images c1) then
              let selected_image = images c1 ! i
              in (case original_pixmap selected_image of
                    None \<Rightarrow> Inl KeyError
                  | Some original \<Rightarrow>
                      if isNull original then Inl AttributeError
                      else
                        let current_size = pixmap_size (img_pixmap selected_image);
                            resized_pixmap =
                              (if sharp_slider c1 = 0
                               then resize_pixmap env original current_size
                               else resize_pixmap env
                                      (sharpening env original (sharp_slider c1)) current_size)
                        in update_histogram
                             (c1\<lparr>images := (images c1)
                                   [i := selected_image\<lparr>img_pixmap := resized_pixmap\<rparr>]\<rparr>))
            else Inl IndexError))"

definition update_powerlaw_image :: "qt_env \<Rightarrow> canvas_window \<Rightarrow> py_error + canvas_window" where
  "update_powerlaw_image env c =
     (case selected_image_index c of
        None \<Rightarrow> Inr c
      | Some i \<Rightarrow>
          if images c = [] then Inr c
          else bind (save_state c) (\<lambda>c1.
            if i < length (images c1) then
              let selected_image = images c1 ! i
              in (case original_pixmap selected_image of
                    None \<Rightarrow> Inl KeyError
                  | Some original \<Rightarrow>
                      if isNull original then Inl AttributeError
                      else
                        let current_size = pixmap_size (img_pixmap selected_image);
                            new_pixmap = powerlaw env original (gamma_slider c1);
                            resized_pixmap = resize_pixmap env new_pixmap current_size
                        in update_histogram
                             (c1\<lparr>images := (images c1)
                                   [i := selected_image\<lparr>img_pixmap := resized_pixmap\<rparr>]\<rparr>))
            else Inl IndexError))"




text \<open>
  \<^verbatim>\<open>QSlider.setValue\<close>: the value is brought into the slider's range (set at lines
  1093, 1103, 1127); when it differs from the current value it is stored and
  \<^verbatim>\<open>valueChanged\<close> is emitted, which runs the connected handler before \<^verbatim>\<open>setValue\<close>
  returns. When it is the current value nothing happens.
\<close>

definition slider_bound :: "int \<Rightarrow> int \<Rightarrow> int \<Rightarrow> int" where
  "slider_bound lo hi v = max lo (min hi v)"

definition threshold_slider_setValue :: "qt_env \<Rightarrow> int \<Rightarrow> canvas_window \<Rightarrow> py_error + canvas_window" where
  "threshold_slider_setValue env v c =
     (let v' = slider_bound 0 255 v
      in if v' = threshold_slider c then Inr c
         else update_thresholding_image env (c\<lparr>threshold_slider := v'\<rparr>))"

definition sharp_slider_setValue :: "qt_env \<Rightarrow> int \<Rightarrow> canvas_window \<Rightarrow> py_error + canvas_window" where
  "sharp_slider_setValue env v c =
     (let v' = slider_bound 0 20 v
      in if v' = sharp_slider c then Inr c
         else update_sharpening_image env (c\<lparr>sharp_slider := v'\<rparr>))"

definition gamma_slider_setValue :: "qt_env \<Rightarrow> int \<Rightarrow> canvas_window \<Rightarrow> py_error + canvas_window" where
  "gamma_slider_setValue env v c =
     (let v' = slider_bound 1 50 v
      in if v' = gamma_slider c then Inr c
         else update_powerlaw_image env (c\<lparr>gamma_slider := v'\<rparr>))"

text \<open>The assignments of lines 1627-1631 and 1677-1681.\<close>

definition restore :: "snapshot \<Rightarrow> canvas_window \<Rightarrow> canvas_window" where
  "restore s c =
     c\<lparr>images := s_images s,
       selected_image_index := s_selected_image_index s,
       pixmap := s_pixmap s,
       overlay_pixmap := s_overlay_pixmap s,
       text_tool := (text_tool c)\<lparr>text_objects := s_text_objects s\<rparr>\<rparr>"

text \<open>\<^verbatim>\<open>CanvasWindow.undo_action\<close> (lines 1591-1639).\<close>

definition undo_action :: "qt_env \<Rightarrow> canvas_window \<Rightarrow> py_error + canvas_window" where
  "undo_action env c =
     (if undo_stack c = [] then Inr c
      else
        bind (current_state c) (\<lambda>current.
        let c1 = c\<lparr>redo_stack := redo_stack c @ [current]\<rparr>;
            last_state = last (undo_stack c1);
            c2 = c1\<lparr>undo_stack := butlast (undo_stack c1)\<rparr>;
            c3 = restore last_state c2
        in bind (threshold_slider_setValue env (threshold_value last_state) c3) (\<lambda>c4.
           bind (sharp_slider_setValue env (sharp_value last_state) c4) (\<lambda>c5.
           bind (gamma_slider_setValue env (gamma_value last_state) c5) (\<lambda>c6.
           update_histogram c6)))))"

text \<open>\<^verbatim>\<open>CanvasWindow.redo_action\<close> (lines 1641-1689).\<close>

definition redo_action :: "qt_env \<Rightarrow> canvas_window \<Rightarrow> py_error + canvas_window" where
  "redo_action env c =
     (if redo_stack c = [] then Inr c
      else
        bind (current_state c) (\<lambda>current.
        let c1 = c\<lparr>undo_stack := undo_stack c @ [current]\<rparr>;
            next_state = last (redo_stack c1);
            c2 = c1\<lparr>redo_stack := butlast (redo_stack c1)\<rparr>;
            c3 = restore next_state c2
        in bind (threshold_slider_setValue env (threshold_value next_state) c3) (\<lambda>c4.
           bind (sharp_slider_setValue env (sharp_value next_state) c4) (\<lambda>c5.
           bind (gamma_slider_setValue env (gamma_value next_state) c5) (\<lambda>c6.
           update_histogram c6)))))"

section \<open>Tool modes\<close>

text \<open>
  The seven \<^verbatim>\<open>toggle_*_mode\<close> methods (lines 1737, 1837, 1867, 1967, 2002, 2061, 2130),
  without the style sheets and status messages. The mode is seven independent
  booleans; each method flips its own flag and assigns \<^verbatim>\<open>False\<close> to the flags it names.
\<close>

definition toggle_drag_mode :: "canvas_window \<Rightarrow> py_error + canvas_window" where
  "toggle_drag_mode c = Inr (c\<lparr>drag_mode := \<not> drag_mode c\<rparr>)"

definition toggle_scale_mode :: "canvas_window \<Rightarrow> py_error + canvas_window" where
  "toggle_scale_mode c =
     (let c1 = c\<lparr>scale_mode := \<not> scale_mode c\<rparr>
      in if scale_mode c1 then Inr (c1\<lparr>drag_mode := False\<rparr>) else Inr c1)"

definition toggle_drawing_mode :: "canvas_window \<Rightarrow> py_error + canvas_window" where
  "toggle_drawing_mode c =
     (let c1 = c\<lparr>drawing_mode := \<not> drawing_mode c\<rparr>
      in bind (save_state c1) (\<lambda>c2.
           if drawing_mode c2 then Inr (c2\<lparr>drag_mode := False, scale_mode := False\<rparr>)
           else Inr c2))"

definition toggle_eraser_mode :: "canvas_window \<Rightarrow> py_error + canvas_window" where
  "toggle_eraser_mode c =
     (let c1 = c\<lparr>eraser_mode := \<not> eraser_mode c\<rparr>;
          c2 = c1\<lparr>drawing_mode := False\<rparr>
      in bind (save_state c2) (\<lambda>c3.
           if eraser_mode c3 then Inr (c3\<lparr>drag_mode := False, scale_mode := False\<rparr>)
           else Inr c3))"

definition toggle_shape_mode :: "canvas_window \<Rightarrow> py_error + canvas_window" where
  "toggle_shape_mode c =
     (let c1 = c\<lparr>shape_mode := \<not> shape_mode c\<rparr>;
          c2 = c1\<lparr>drawing_mode := False\<rparr>;
          c3 = c2\<lparr>eraser_mode := False\<rparr>
      in save_state c3)"

definition toggle_text_mode :: "canvas_window \<Rightarrow> py_error + canvas_window" where
  "toggle_text_mode c =
     (let c1 = c\<lparr>text_mode := \<not> text_mode c\<rparr>;
          c2 = c1\<lparr>drawing_mode := False\<rparr>;
          c3 = c2\<lparr>eraser_mode := False\<rparr>;
          c4 = c3\<lparr>shape_mode := False\<rparr>
      in save_state c4)"

definition toggle_crop_mode :: "canvas_window \<Rightarrow> py_error + canvas_window" where
  "toggle_crop_mode c = Inr (c\<lparr>crop_mode := \<not> crop_mode c\<rparr>)"

text \<open>The flags that are set, in the order of the \<^verbatim>\<open>elif\<close> chain of
  \<^verbatim>\<open>mousePressEvent\<close>.\<close>

datatype tool_mode = Transform | Scale | Drawing | Erasing | Shape | Text | Crop

definition active_modes :: "canvas_window \<Rightarrow> tool_mode list" where
  "active_modes c =
     (if drag_mode c then [Transform] else []) @
     (if drawing_mode c then [Drawing] else []) @
     (if eraser_mode c then [Erasing] else []) @
     (if shape_mode c then [Shape] else []) @
     (if text_mode c then [Text] else []) @
     (if crop_mode c then [Crop] else []) @
     (if scale_mode c then [Scale] else [])"

section \<open>Transforming an image\<close>

text \<open>\<^verbatim>\<open>get_clicked_anchor\<close> (lines 1789-1800): the first corner, in the order of the
  dictionary, whose 10 by 10 square holds the point.\<close>

definition get_clicked_anchor :: "qpoint \<Rightarrow> qrect \<Rightarrow> anchor option" where
  "get_clicked_anchor pos rect =
     (let near = (\<lambda>a. contains (QRect (fst a - 5) (snd a - 5) 10 10) pos)
      in if near (topLeft rect) then Some TopLeft
         else if near (topRight rect) then Some TopRight
         else if near (bottomLeft rect) then Some BottomLeft
         else if near (bottomRight rect) then Some BottomRight
         else None)"

text \<open>
  \<^verbatim>\<open>scale_image\<close> (lines 1802-1835); \<open>i\<close> is the index in \<^verbatim>\<open>self.images\<close> of the
  dictionary the caller passes. Line 1804 binds \<^verbatim>\<open>rect\<close> to the \<^verbatim>\<open>QRect\<close> object that the
  dictionary holds, so the \<^verbatim>\<open>setTopLeft\<close> ... \<^verbatim>\<open>setBottomRight\<close> of lines 1808-1815
  change the dictionary's rectangle itself, whatever the size test of line 1822 says
  afterwards: \<open>set_corner\<close> is the \<^verbatim>\<open>if\<close>/\<^verbatim>\<open>elif\<close> chain of those lines and \<open>moved\<close> is
  the dictionary after them. The size test is on the rectangle; the height that the
  pixmap gets is computed after it, from the width.
\<close>

fun set_corner :: "anchor \<Rightarrow> qpoint \<Rightarrow> qrect \<Rightarrow> qrect" where
  "set_corner TopLeft pos rect = setTopLeft pos rect"
| "set_corner TopRight pos rect = setTopRight pos rect"
| "set_corner BottomLeft pos rect = setBottomLeft pos rect"
| "set_corner BottomRight pos rect = setBottomRight pos rect"

definition scale_image :: "qt_env \<Rightarrow> qpoint \<Rightarrow> nat \<Rightarrow> canvas_window \<Rightarrow> py_error + canvas_window" where
  "scale_image env pos i c =
     (let img = images c ! i;
          anchor = anchor_clicked c;
          rect = (case anchor of
                    Some a \<Rightarrow> set_corner a pos (img_rect img)
                  | None \<Rightarrow> img_rect img);
          moved = img\<lparr>img_rect := rect\<rparr>;
          new_width = rect_width rect;
          new_height = rect_height rect
      in if 10 < new_width \<and> 10 < new_height then
           (case original_pixmap img of
              None \<Rightarrow> Inl KeyError
            | Some orig \<Rightarrow>
                bind (py_truediv (of_int (pm_width orig)) (of_int (pm_height orig)))
                  (\<lambda>aspect_ratio.
                bind (if anchor \<noteq> None
                      then bind (py_truediv (of_int new_width) aspect_ratio)
                             (\<lambda>q. Inr (py_int q))
                      else Inr new_height) (\<lambda>new_height'.
                  Inr (c\<lparr>images := (images c)
                         [i := moved\<lparr>img_pixmap := scaled env orig new_width new_height',
                                     img_rect := QRect (fst (topLeft rect)) (snd (topLeft rect))
                                                   new_width new_height'\<rparr>]\<rparr>))))
         else Inr (c\<lparr>images := (images c)[i := moved]\<rparr>))"

text \<open>\<^verbatim>\<open>flip_horizontal\<close> and \<^verbatim>\<open>flip_vertical\<close> (lines 2197-2213); without a valid
  selection they show a warning and change nothing.\<close>

definition flip_horizontal :: "qt_env \<Rightarrow> canvas_window \<Rightarrow> py_error + canvas_window" where
  "flip_horizontal env c =
     (case selected_image_index c of
        None \<Rightarrow> Inr c
      | Some i \<Rightarrow>
          if i < length (images c) then
            bind (save_state c) (\<lambda>c1.
              let img = images c1 ! i
              in Inr (c1\<lparr>images := (images c1)
                        [i := img\<lparr>img_pixmap := transformed env (img_pixmap img) (- 1) 1\<rparr>]\<rparr>))
          else Inr c)"


text \<open>
  \<^verbatim>\<open>import_image\<close> (lines 1692-1728). The file dialog and the decoder are outside the
  editor: \<open>decoded\<close> is the pixmap they deliver, \<open>None\<close> when the dialog is cancelled or
  the file cannot be read.
\<close>

definition import_image :: "qt_env \<Rightarrow> qpixmap option \<Rightarrow> canvas_window \<Rightarrow> py_error + canvas_window" where
  "import_image env decoded c =
     bind (save_state c) (\<lambda>c1.
       case decoded of
         None \<Rightarrow> Inr c1
       | Some pm0 \<Rightarrow>
           let pm = (if width c1 < pm_width pm0 \<or> height c1 < pm_height pm0
                     then scaled env pm0 (width c1) (height c1) else pm0);
               x = canvas_x c1 + (width c1 - pm_width pm) div 2;
               y = canvas_y c1 + (height c1 - pm_height pm) div 2;
               c2 = c1\<lparr>images := images c1 @
                         [\<lparr>img_pixmap = pm, original_pixmap = Some pm, img_x = x, img_y = y,
                           img_rect = QRect x y (pm_width pm) (pm_height pm)\<rparr>]\<rparr>
           in gamma_slider_setValue env 10 c2)"

text \<open>\<^verbatim>\<open>perform_crop\<close> (lines 2159-2171).\<close>

definition perform_crop :: "qt_env \<Rightarrow> canvas_window \<Rightarrow> py_error + canvas_window" where
  "perform_crop env c =
     (case selected_image_index c of
        None \<Rightarrow> Inr c
      | Some i \<Rightarrow>
          (case crop_rect c of
             None \<Rightarrow> Inr c
           | Some crop \<Rightarrow>
               if \<not> isValid crop then Inr c
               else bind (save_state c) (\<lambda>c1.
                 if i < length (images c1) then
                   let img = images c1 ! i;
                       rect = translated (- img_x img) (- img_y img) crop;
                       cropped_pixmap = copy_rect env (img_pixmap img) rect
                   in Inr (c1\<lparr>images := (images c1)
                             [i := img\<lparr>img_pixmap := cropped_pixmap,
                                       img_rect := QRect (img_x img) (img_y img)
                                                     (pm_width cropped_pixmap)
                                                     (pm_height cropped_pixmap)\<rparr>]\<rparr>)
                 else Inl IndexError)))"

text \<open>
  \<^verbatim>\<open>scale_canvas\<close> (lines 2224-2262), the zoom. The scale factor is a float: \<^verbatim>\<open>*=\<close> and
  the products with the pixel counts round to the nearest double. Every image gets
  its original pixmap resampled, and is centred; the loop stops at the first image
  without \<^verbatim>\<open>'original_pixmap'\<close>. \<^verbatim>\<open>zoom_in\<close>, \<^verbatim>\<open>zoom_out\<close> and \<^verbatim>\<open>reset_zoom\<close> (lines
  2215-2222) call it with the floats \<^verbatim>\<open>1.1\<close> and \<^verbatim>\<open>0.9\<close> and with \<^verbatim>\<open>reset=True\<close>.
\<close>

definition zoom_dict :: "qt_env \<Rightarrow> canvas_window \<Rightarrow> img_data \<Rightarrow> py_error + img_data" where
  "zoom_dict env c img =
     (case original_pixmap img of
        None \<Rightarrow> Inl KeyError
      | Some original \<Rightarrow>
          let scaled_pixmap = scaled env original
                (py_int (round_double (of_int (pm_width original) * current_scale_factor c)))
                (py_int (round_double (of_int (pm_height original) * current_scale_factor c)));
              x = canvas_x c + (width c - pm_width scaled_pixmap) div 2;
              y = canvas_y c + (height c - pm_height scaled_pixmap) div 2
          in Inr (img\<lparr>img_pixmap := scaled_pixmap, img_x := x, img_y := y,
                      img_rect := QRect x y (pm_width scaled_pixmap) (pm_height scaled_pixmap)\<rparr>))"

primrec zoom_dicts :: "qt_env \<Rightarrow> canvas_window \<Rightarrow> img_data list \<Rightarrow> py_error + img_data list" where
  "zoom_dicts env c [] = Inr []"
| "zoom_dicts env c (img # rest) =
     bind (zoom_dict env c img) (\<lambda>d. bind (zoom_dicts env c rest) (\<lambda>ds. Inr (d # ds)))"

definition scale_canvas :: "qt_env \<Rightarrow> rat \<Rightarrow> bool \<Rightarrow> canvas_window \<Rightarrow> py_error + canvas_window" where
  "scale_canvas env factor reset c =
     (let c1 = c\<lparr>current_scale_factor :=
                   (if reset then 1 else round_double (current_scale_factor c * factor))\<rparr>
      in bind (zoom_dicts env c1 (images c1)) (\<lambda>imgs.
           let c2 = c1\<lparr>images := imgs\<rparr>;
               w = py_int (round_double (of_int (width c2) * current_scale_factor c2));
               h = py_int (round_double (of_int (height c2) * current_scale_factor c2));
               c3 = c2\<lparr>pixmap := scaled env (pixmap c2) w h\<rparr>;
               c4 = c3\<lparr>overlay_pixmap := scaled env (overlay_pixmap c3) w h\<rparr>
           in update_histogram c4))"


definition zoom_out :: "qt_env \<Rightarrow> canvas_window \<Rightarrow> py_error + canvas_window" where
  "zoom_out env c = scale_canvas env (round_double (9 / 10)) False c"

definition reset_zoom :: "qt_env \<Rightarrow> canvas_window \<Rightarrow> py_error + canvas_window" where
  "reset_zoom env c = scale_canvas env 1 True c"

text \<open>
  \<^verbatim>\<open>open_project\<close> (lines 1500-1550). The file dialog, \<^verbatim>\<open>pickle\<close> and the image files are
  outside the editor: \<open>project\<close> is what they deliver, \<open>None\<close> when the dialog is
  cancelled. The dictionaries of the images are built without \<^verbatim>\<open>'original_pixmap'\<close>;
  the selection, the stacks and the sliders are left as they are.
\<close>

record project_data =
  pd_canvas :: qpixmap
  pd_overlay :: qpixmap
  pd_images :: "(qpixmap \<times> int \<times> int \<times> qrect) list"
  pd_text_objects :: "text_object list"

definition open_project :: "project_data option \<Rightarrow> canvas_window \<Rightarrow> py_error + canvas_window" where
  "open_project project c =
     (case project of
        None \<Rightarrow> Inr c
      | Some pd \<Rightarrow>
          Inr (c\<lparr>pixmap := pd_canvas pd,
                 overlay_pixmap := pd_overlay pd,
                 images := map (\<lambda>(pm, x, y, r).
                                 \<lparr>img_pixmap = pm, original_pixmap = None, img_x = x, img_y = y,
                                  img_rect = r\<rparr>) (pd_images pd),
                 text_tool := (text_tool c)\<lparr>text_objects := pd_text_objects pd\<rparr>\<rparr>))"

section \<open>Drawing, erasing, shapes and text\<close>

text \<open>\<^verbatim>\<open>DrawingTool\<close> (lines 440-469). The painter of \<^verbatim>\<open>end_drawing\<close> has Qt's default
  settings; the statement that would clear the overlay (line 466) is commented out in
  the source, as it is in \<^verbatim>\<open>EraseTool.end_erasing\<close> and \<^verbatim>\<open>ShapeTool.end_drawing\<close>.\<close>

definition DrawingTool_start_drawing :: "mouse_event \<Rightarrow> canvas_window \<Rightarrow> py_error + canvas_window" where
  "DrawingTool_start_drawing event c =
     (let c1 = c\<lparr>drawing_tool := (drawing_tool c)\<lparr>is_drawing := Some True\<rparr>\<rparr>
      in bind (DrawingTool_map_to_canvas c1 (ev_pos event)) (\<lambda>p.
           Inr (c1\<lparr>drawing_tool := (drawing_tool c1)\<lparr>dt_last_pos := Some p\<rparr>\<rparr>)))"

definition DrawingTool_continue_drawing :: "qt_env \<Rightarrow> mouse_event \<Rightarrow> canvas_window \<Rightarrow> py_error + canvas_window" where
  "DrawingTool_continue_drawing env event c =
     (case is_drawing (drawing_tool c) of
        None \<Rightarrow> Inl AttributeError
      | Some False \<Rightarrow> Inr c
      | Some True \<Rightarrow>
          bind (DrawingTool_map_to_canvas c (ev_pos event)) (\<lambda>current_pos.
            case dt_last_pos (drawing_tool c) of
              None \<Rightarrow> Inl TypeError
            | Some last_pos \<Rightarrow>
                let painter = \<lparr>p_color = dt_pen_color (drawing_tool c),
                               p_width = dt_pen_width (drawing_tool c),
                               p_style = dt_pen_style (drawing_tool c),
                               p_opacity = dt_pen_opacity (drawing_tool c)\<rparr>;
                    c1 = c\<lparr>overlay_pixmap :=
                            paint env painter (DrawLine last_pos current_pos) (overlay_pixmap c)\<rparr>
                in Inr (c1\<lparr>drawing_tool := (drawing_tool c1)\<lparr>dt_last_pos := Some current_pos\<rparr>\<rparr>)))"

definition DrawingTool_end_drawing :: "qt_env \<Rightarrow> canvas_window \<Rightarrow> py_error + canvas_window" where
  "DrawingTool_end_drawing env c =
     (case is_drawing (drawing_tool c) of
        None \<Rightarrow> Inl AttributeError
      | Some False \<Rightarrow> Inr c
      | Some True \<Rightarrow>
          let c1 = c\<lparr>pixmap :=
                      paint env default_painter (DrawPixmap 0 0 (overlay_pixmap c)) (pixmap c)\<rparr>
          in Inr (c1\<lparr>drawing_tool := (drawing_tool c1)\<lparr>is_drawing := Some False,
                                                        dt_last_pos := None\<rparr>\<rparr>))"

text \<open>\<^verbatim>\<open>EraseTool\<close> (lines 490-518): the eraser paints white on the overlay.\<close>

definition EraseTool_start_erasing :: "mouse_event \<Rightarrow> canvas_window \<Rightarrow> py_error + canvas_window" where
  "EraseTool_start_erasing event c =
     (let c1 = c\<lparr>erase_tool := (erase_tool c)\<lparr>is_erasing := Some True\<rparr>\<rparr>
      in bind (EraseTool_map_to_canvas c1 (ev_pos event)) (\<lambda>p.
           Inr (c1\<lparr>erase_tool := (erase_tool c1)\<lparr>et_last_pos := Some p\<rparr>\<rparr>)))"

definition EraseTool_continue_erasing :: "qt_env \<Rightarrow> mouse_event \<Rightarrow> canvas_window \<Rightarrow> py_error + canvas_window" where
  "EraseTool_continue_erasing env event c =
     (case is_erasing (erase_tool c) of
        None \<Rightarrow> Inl AttributeError
      | Some False \<Rightarrow> Inr c
      | Some True \<Rightarrow>
          bind (EraseTool_map_to_canvas c (ev_pos event)) (\<lambda>current_pos.
            case et_last_pos (erase_tool c) of
              None \<Rightarrow> Inl TypeError
            | Some last_pos \<Rightarrow>
                let painter = \<lparr>p_color = Qt_white,
                               p_width = et_pen_width (erase_tool c),
                               p_style = et_pen_style (erase_tool c),
                               p_opacity = 1\<rparr>;
                    c1 = c\<lparr>overlay_pixmap :=
                            paint env painter (DrawLine last_pos current_pos) (overlay_pixmap c)\<rparr>
                in Inr (c1\<lparr>erase_tool := (erase_tool c1)\<lparr>et_last_pos := Some current_pos\<rparr>\<rparr>)))"

definition EraseTool_end_erasing :: "qt_env \<Rightarrow> canvas_window \<Rightarrow> py_error + canvas_window" where
  "EraseTool_end_erasing env c =
     (case is_erasing (erase_tool c) of
        None \<Rightarrow> Inl AttributeError
      | Some False \<Rightarrow> Inr c
      | Some True \<Rightarrow>
          let c1 = c\<lparr>pixmap :=
                      paint env default_painter (DrawPixmap 0 0 (overlay_pixmap c)) (pixmap c)\<rparr>
          in Inr (c1\<lparr>erase_tool := (erase_tool c1)\<lparr>is_erasing := Some False,
                                                    et_last_pos := None\<rparr>\<rparr>))"

text \<open>\<^verbatim>\<open>ShapeTool\<close> (lines 337-402). \<^verbatim>\<open>QRect.center()\<close> halves with C++ integer division,
  which truncates towards zero.\<close>

definition cdiv2 :: "int \<Rightarrow> int" where
  "cdiv2 n = (if 0 \<le> n then n div 2 else - ((- n) div 2))"

definition center :: "qrect \<Rightarrow> qpoint" where
  "center r = (cdiv2 (qr_x1 r + qr_x2 r), cdiv2 (qr_y1 r + qr_y2 r))"

definition draw_shape :: "qt_env \<Rightarrow> shape_tool_state \<Rightarrow> qpainter \<Rightarrow> qpoint \<Rightarrow> qpoint \<Rightarrow> qpixmap \<Rightarrow> qpixmap" where
  "draw_shape env tool painter start_pos current_pos target =
     (let rect = QRect_points start_pos current_pos
      in if shape_type tool = ''Rectangle'' then paint env painter (DrawRect rect) target
         else if shape_type tool = ''Ellipse'' then paint env painter (DrawEllipse rect) target
         else if shape_type tool = ''Circle'' then
           (let size = min (rect_width rect) (rect_height rect)
            in paint env painter
                 (DrawEllipse (QRect (fst (topLeft rect)) (snd (topLeft rect)) size size)) target)
         else if shape_type tool = ''Square'' then
           (let size = min (rect_width rect) (rect_height rect)
            in paint env painter
                 (DrawRect (QRect (fst (topLeft rect)) (snd (topLeft rect)) size size)) target)
         else if shape_type tool = ''Triangle'' then
           paint env painter
             (DrawPolygon [(fst (center rect), qr_y1 rect), bottomLeft rect, bottomRight rect]) target
         else if shape_type tool = ''Line'' then
           paint env painter (DrawLine start_pos current_pos) target
         else if shape_type tool = ''DashLine'' then
           paint env (painter\<lparr>p_color := sh_pen_color tool, p_width := sh_pen_width tool,
                              p_style := DashLine\<rparr>)
             (DrawLine start_pos current_pos) target
         else target)"

definition shape_painter :: "shape_tool_state \<Rightarrow> qpainter" where
  "shape_painter tool = \<lparr>p_color = sh_pen_color tool, p_width = sh_pen_width tool,
                         p_style = sh_pen_style tool, p_opacity = sh_pen_opacity tool\<rparr>"

definition ShapeTool_start_drawing :: "mouse_event \<Rightarrow> canvas_window \<Rightarrow> py_error + canvas_window" where
  "ShapeTool_start_drawing event c =
     bind (ShapeTool_map_to_canvas c (ev_pos event)) (\<lambda>p.
       Inr (c\<lparr>shape_tool := (shape_tool c)\<lparr>sh_start_pos := Some p\<rparr>\<rparr>))"

definition ShapeTool_continue_drawing :: "qt_env \<Rightarrow> mouse_event \<Rightarrow> canvas_window \<Rightarrow> py_error + canvas_window" where
  "ShapeTool_continue_drawing env event c =
     (case sh_start_pos (shape_tool c) of
        None \<Rightarrow> Inr c
      | Some start_pos \<Rightarrow>
          if start_pos = (0, 0) then Inr c
          else bind (ShapeTool_map_to_canvas c (ev_pos event)) (\<lambda>current_pos.
            let cleared = fill Qt_transparent (overlay_pixmap c)
            in Inr (c\<lparr>overlay_pixmap :=
                       draw_shape env (shape_tool c) (shape_painter (shape_tool c))
                         start_pos current_pos cleared\<rparr>)))"

definition ShapeTool_end_drawing :: "qt_env \<Rightarrow> mouse_event \<Rightarrow> canvas_window \<Rightarrow> py_error + canvas_window" where
  "ShapeTool_end_drawing env event c =
     (case sh_start_pos (shape_tool c) of
        None \<Rightarrow> Inr c
      | Some start_pos \<Rightarrow>
          if start_pos = (0, 0) then Inr c
          else bind (ShapeTool_map_to_canvas c (ev_pos event)) (\<lambda>current_pos.
            let c1 = c\<lparr>pixmap :=
                        draw_shape env (shape_tool c) (shape_painter (shape_tool c))
                          start_pos current_pos (pixmap c)\<rparr>
            in Inr (c1\<lparr>shape_tool := (shape_tool c1)\<lparr>sh_start_pos := None\<rparr>\<rparr>)))"

text \<open>\<^verbatim>\<open>TextTool\<close> (lines 234-267).\<close>

definition update_text_rect :: "qt_env \<Rightarrow> text_tool_state \<Rightarrow> text_tool_state" where
  "update_text_rect env t =
     (case tt_start_pos t of
        None \<Rightarrow> t
      | Some p \<Rightarrow>
          if p = (0, 0) then t
          else let text_height = font_height env (current_font t)
               in t\<lparr>text_rect := Some (QRect (fst p) (snd p - text_height)
                                         (averageCharWidth env (current_font t) * 10)
                                         (text_height + 5))\<rparr>)"

definition start_typing :: "qt_env \<Rightarrow> mouse_event \<Rightarrow> text_tool_state \<Rightarrow> text_tool_state" where
  "start_typing env event t =
     update_text_rect env
       (t\<lparr>tt_start_pos := Some (ev_pos event), current_text := [], is_active := True\<rparr>)"

definition finalize_text :: "text_tool_state \<Rightarrow> text_tool_state" where
  "finalize_text t =
     (if current_text t \<noteq> [] then
        t\<lparr>text_objects := text_objects t @
             [\<lparr>to_position = tt_start_pos t, to_text = current_text t,
               to_font = current_font t, to_color = tt_pen_color t,
               to_opacity = tt_pen_opacity t\<rparr>],
          current_text := [], tt_start_pos := None, text_rect := None, is_active := False\<rparr>
      else t)"

section \<open>Pointer events\<close>

text \<open>The \<^verbatim>\<open>for ... else\<close> loops of \<^verbatim>\<open>mousePressEvent\<close>: the index of the first image
  whose rectangle holds the point, counting from \<open>i\<close>.\<close>

fun first_containing :: "img_data list \<Rightarrow> qpoint \<Rightarrow> nat \<Rightarrow> nat option" where
  "first_containing [] p i = None"
| "first_containing (img # rest) p i =
     (if contains (img_rect img) p then Some i else first_containing rest p (Suc i))"

text \<open>The body shared by the scale branch (lines 3186-3196) and the branch without
  any mode (lines 3197-3207), which are the same statements.\<close>

definition press_select_anchor :: "mouse_event \<Rightarrow> canvas_window \<Rightarrow> py_error + canvas_window" where
  "press_select_anchor event c =
     (case first_containing (images c) (ev_pos event) 0 of
        Some i \<Rightarrow>
          let c1 = c\<lparr>selected_image_index := Some i,
                     last_mouse_position := Some (ev_pos event),
                     anchor_clicked := get_clicked_anchor (ev_pos event) (img_rect (images c ! i))\<rparr>
          in if anchor_clicked c1 \<noteq> None then save_state c1 else Inr c1
      | None \<Rightarrow> Inr (c\<lparr>selected_image_index := None\<rparr>))"

text \<open>\<^verbatim>\<open>mousePressEvent\<close> (lines 3159-3215).\<close>

definition mousePressEvent :: "qt_env \<Rightarrow> mouse_event \<Rightarrow> canvas_window \<Rightarrow> py_error + canvas_window" where
  "mousePressEvent env event c =
     (if drag_mode c \<and> ev_button event = LeftButton then
        (case first_containing (images c) (ev_pos event) 0 of
           Some i \<Rightarrow> save_state (c\<lparr>selected_image_index := Some i,
                                    last_mouse_position := Some (ev_pos event)\<rparr>)
         | None \<Rightarrow> Inr (c\<lparr>selected_image_index := None\<rparr>))
      else if drawing_mode c \<and> ev_button event = LeftButton then
        DrawingTool_start_drawing event c
      else if eraser_mode c \<and> ev_button event = LeftButton then
        EraseTool_start_erasing event c
      else if shape_mode c \<and> ev_button event = LeftButton then
        ShapeTool_start_drawing event c
      else if text_mode c \<and> ev_button event = LeftButton then
        (let t = (if is_active (text_tool c) then finalize_text (text_tool c) else text_tool c)
         in Inr (c\<lparr>text_tool := start_typing env event t\<rparr>))
      else if crop_mode c \<and> ev_button event = LeftButton then
        Inr (c\<lparr>crop_start_point := Some (ev_pos event), crop_end_point := None,
               crop_rect := None\<rparr>)
      else if scale_mode c \<and> ev_button event = LeftButton then
        press_select_anchor event c
      else if ev_button event = LeftButton then
        press_select_anchor event c
      else if ev_button event = RightButton then
        (case first_containing (images c) (ev_pos event) 0 of
           Some i \<Rightarrow> Inr (c\<lparr>selected_image_index := Some i\<rparr>)
         | None \<Rightarrow> Inr (c\<lparr>selected_image_index := None\<rparr>))
      else Inr c)"

text \<open>The drag of lines 3234-3242: the selected image and its rectangle follow the
  pointer.\<close>

definition drag_image :: "mouse_event \<Rightarrow> nat \<Rightarrow> canvas_window \<Rightarrow> py_error + canvas_window" where
  "drag_image event i c =
     (case last_mouse_position c of
        None \<Rightarrow> Inl AttributeError
      | Some last_pos \<Rightarrow>
          let img = images c ! i;
              dx = fst (ev_pos event) - fst last_pos;
              dy = snd (ev_pos event) - snd last_pos;
              x = img_x img + dx;
              y = img_y img + dy
          in Inr (c\<lparr>last_mouse_position := Some (ev_pos event),
                    images := (images c)[i := img\<lparr>img_x := x, img_y := y,
                                                 img_rect := moveTo x y (img_rect img)\<rparr>]\<rparr>))"

text \<open>\<^verbatim>\<open>mouseMoveEvent\<close> (lines 3217-3261). The two branches after the drag repeat
  conditions that have already failed; they are kept in their place.\<close>

definition mouseMoveEvent :: "qt_env \<Rightarrow> mouse_event \<Rightarrow> canvas_window \<Rightarrow> py_error + canvas_window" where
  "mouseMoveEvent env event c =
     (case selected_image_index c of
        Some i \<Rightarrow>
          if \<not> i < length (images c) then Inl IndexError
          else if anchor_clicked c \<noteq> None then scale_image env (ev_pos event) i c
          else if crop_mode c \<and> qpoint_truthy (crop_start_point c) then
            Inr (c\<lparr>crop_end_point := Some (ev_pos event),
                   crop_rect := Some (normalized env
                      (QRect_points (the (crop_start_point c)) (ev_pos event)))\<rparr>)
          else if drawing_mode c \<and> ev_buttons event = {LeftButton} then
            DrawingTool_continue_drawing env event c
          else if eraser_mode c \<and> ev_buttons event = {LeftButton} then
            EraseTool_continue_erasing env event c
          else if shape_mode c \<and> ev_buttons event = {LeftButton} then
            ShapeTool_continue_drawing env event c
          else if drag_mode c \<and> ev_buttons event = {LeftButton} then
            drag_image event i c
          else if drag_mode c \<and> ev_buttons event = {LeftButton} then
            drag_image event i c
          else if scale_mode c \<and> anchor_clicked c \<noteq> None then
            scale_image env (ev_pos event) i c
          else Inr c
      | None \<Rightarrow>
          if drawing_mode c \<and> ev_buttons event = {LeftButton} then
            DrawingTool_continue_drawing env event c
          else if eraser_mode c \<and> ev_buttons event = {LeftButton} then
            EraseTool_continue_erasing env event c
          else if shape_mode c \<and> ev_buttons event = {LeftButton} then
            ShapeTool_continue_drawing env event c
          else Inr c)"

text \<open>\<^verbatim>\<open>mouseReleaseEvent\<close> (lines 3263-3289).\<close>

definition mouseReleaseEvent :: "qt_env \<Rightarrow> mouse_event \<Rightarrow> canvas_window \<Rightarrow> py_error + canvas_window" where
  "mouseReleaseEvent env event c =
     bind
       (if selected_image_index c \<noteq> None \<and> scale_mode c then
          (if anchor_clicked c \<noteq> None then save_state c else Inr c)
        else if drawing_mode c then
          bind (DrawingTool_end_drawing env c) save_state
        else if eraser_mode c then
          bind (EraseTool_end_erasing env c) save_state
        else if shape_mode c then
          bind (ShapeTool_end_drawing env event c) save_state
        else if text_mode c \<and> is_active (text_tool c) then
          Inr (c\<lparr>text_tool := finalize_text (text_tool c)\<rparr>)
        else if crop_mode c \<and> qpoint_truthy (crop_start_point c)
                \<and> ev_button event = LeftButton then
          (let c1 = c\<lparr>crop_end_point := Some (ev_pos event),
                      crop_rect := Some (normalized env
                         (QRect_points (the (crop_start_point c)) (ev_pos event)))\<rparr>
           in bind (perform_crop env c1) (\<lambda>c2.
                Inr (c2\<lparr>crop_start_point := None, crop_end_point := None, crop_rect := None\<rparr>)))
        else Inr c)
       (\<lambda>c'. Inr (c'\<lparr>anchor_clicked := None\<rparr>))"

text \<open>A pointer gesture: one press, the moves in order, one release; the first
  exception ends it.\<close>

fun moves :: "qt_env \<Rightarrow> mouse_event list \<Rightarrow> canvas_window \<Rightarrow> py_error + canvas_window" where
  "moves env [] c = Inr c"
| "moves env (e # es) c = bind (mouseMoveEvent env e c) (moves env es)"

definition gesture :: "qt_env \<Rightarrow> mouse_event \<Rightarrow> mouse_event list \<Rightarrow> mouse_event \<Rightarrow> canvas_window \<Rightarrow> py_error + canvas_window" where
  "gesture env down ms up c =
     bind (mousePressEvent env down c) (\<lambda>c1.
     bind (moves env ms c1) (\<lambda>c2.
     mouseReleaseEvent env up c2))"

section \<open>A concrete environment for the examples\<close>

text \<open>
  \<open>simple_qt\<close> gives each operation of \<open>qt_env\<close> a simple meaning, enough to run the
  examples. Painting a pixmap puts every source pixel that is not transparent over
  the target pixel with the same index (the pixmaps of the examples have the same
  size and are painted at the origin). A horizontal or vertical line colours its
  pixels with the pen colour, any other line and every shape colours its corner
  points; pen width and opacity are ignored. Resampling keeps the first pixel and
  takes the new size, mirroring reverses the pixels, the filters keep the picture.
  The theorems about the editor hold for every environment.
\<close>

definition over_px :: "rgba \<Rightarrow> rgba \<Rightarrow> rgba" where
  "over_px src dst = (if alpha src = 0 then dst else src)"

definition set_pixel :: "rgba \<Rightarrow> qpoint \<Rightarrow> qpixmap \<Rightarrow> qpixmap" where
  "set_pixel col p pm =
     (if 0 \<le> fst p \<and> fst p < pm_width pm \<and> 0 \<le> snd p \<and> snd p < pm_height pm
      then pm\<lparr>pm_pixels := (pm_pixels pm)[nat (snd p * pm_width pm + fst p) := col]\<rparr>
      else pm)"

definition line_points :: "qpoint \<Rightarrow> qpoint \<Rightarrow> qpoint list" where
  "line_points a b =
     (if fst a = fst b then map (\<lambda>y. (fst a, y)) [min (snd a) (snd b)..max (snd a) (snd b)]
      else if snd a = snd b then map (\<lambda>x. (x, snd a)) [min (fst a) (fst b)..max (fst a) (fst b)]
      else [a, b])"

fun simple_paint :: "qpainter \<Rightarrow> paint_op \<Rightarrow> qpixmap \<Rightarrow> qpixmap" where
  "simple_paint p (DrawPixmap x y src) target =
     target\<lparr>pm_pixels := map2 over_px (pm_pixels src) (pm_pixels target)
                           @ drop (length (pm_pixels src)) (pm_pixels target)\<rparr>"
| "simple_paint p (DrawLine a b) target = fold (set_pixel (p_color p)) (line_points a b) target"
| "simple_paint p (DrawRect r) target =
     fold (set_pixel (p_color p)) [topLeft r, bottomRight r] target"
| "simple_paint p (DrawEllipse r) target =
     fold (set_pixel (p_color p)) [topLeft r, bottomRight r] target"
| "simple_paint p (DrawPolygon ps) target = fold (set_pixel (p_color p)) ps target"

definition simple_qt :: qt_env where
  "simple_qt =
     \<lparr>paint = simple_paint,
      scaled = (\<lambda>pm w h. \<lparr>pm_width = w, pm_height = h,
                           pm_pixels = replicate (nat (w * h))
                             (case pm_pixels pm of [] \<Rightarrow> Qt_transparent | px # rest \<Rightarrow> px)\<rparr>),
      transformed = (\<lambda>pm sx sy. pm\<lparr>pm_pixels := rev (pm_pixels pm)\<rparr>),
      copy_rect = (\<lambda>pm r. QPixmap (rect_width r) (rect_height r)
                             (case pm_pixels pm of [] \<Rightarrow> Qt_transparent | px # rest \<Rightarrow> px)),
      normalized = (\<lambda>r. \<lparr>qr_x1 = min (qr_x1 r) (qr_x2 r), qr_y1 = min (qr_y1 r) (qr_y2 r),
                          qr_x2 = max (qr_x1 r) (qr_x2 r), qr_y2 = max (qr_y1 r) (qr_y2 r)\<rparr>),
      thresholding = (\<lambda>pm v. pm),
      sharpening = (\<lambda>pm v. pm),
      powerlaw = (\<lambda>pm v. pm),
      font_height = (\<lambda>f. snd f),
      averageCharWidth = (\<lambda>f. snd f div 2)\<rparr>"

subsection \<open>The documents of the examples\<close>

text \<open>A decoded 400 by 300 picture, and the 800 by 600 window after importing it:
  \<^verbatim>\<open>import_image\<close> centres it at (300, 250) and takes one checkpoint first.\<close>

definition photo :: qpixmap where
  "photo = QPixmap 400 300 Qt_white"

definition with_photo :: canvas_window where
  "with_photo =
     (init_window 800 600)
       \<lparr>undo_stack := [snapshot_of (init_window 800 600)],
        images := [\<lparr>img_pixmap = photo, original_pixmap = Some photo, img_x = 300, img_y = 250,
                    img_rect = QRect 300 250 400 300\<rparr>]\<rparr>"

definition left_at :: "qpoint \<Rightarrow> mouse_event" where
  "left_at p = \<lparr>ev_pos = p, ev_button = LeftButton, ev_buttons = {LeftButton}\<rparr>"

text \<open>The window of \<open>with_photo\<close> after \<^verbatim>\<open>toggle_scale_mode\<close>, and after a left press on the
  bottom-right corner of the picture, at (699, 549): the press selects the picture,
  records the corner and takes a checkpoint.\<close>

definition scale_ready :: canvas_window where
  "scale_ready = with_photo\<lparr>scale_mode := True\<rparr>"

definition grabbed :: canvas_window where
  "grabbed =
     (let c1 = scale_ready\<lparr>selected_image_index := Some 0,
                            last_mouse_position := Some (699, 549),
                            anchor_clicked := Some BottomRight\<rparr>
      in c1\<lparr>undo_stack := undo_stack c1 @ [snapshot_of c1], redo_stack := []\<rparr>)"



text \<open>
  The 800 by 600 window after \<^verbatim>\<open>toggle_drawing_mode\<close>, and after a left press at the
  widget point (110, 110) and a move with the button held to (110, 200): the overlay
  holds the stroke from the canvas point (10, 10) to (10, 100).
\<close>

definition drawing_ready :: canvas_window where
  "drawing_ready =
     (init_window 800 600)\<lparr>drawing_mode := True,
                            undo_stack := [snapshot_of (init_window 800 600)]\<rparr>"

definition black_pen :: qpainter where
  "black_pen = \<lparr>p_color = Qt_black, p_width = 1, p_style = SolidLine, p_opacity = 1\<rparr>"


text \<open>The histogram can be drawn: no image is selected, or there is no image, or the
  selected index is in the list and the displayed pixmap of that image is not empty.\<close>

definition histogram_ready :: "canvas_window \<Rightarrow> bool" where
  "histogram_ready c =
     (case selected_image_index c of
        None \<Rightarrow> True
      | Some i \<Rightarrow> images c = [] \<or> (i < length (images c) \<and> \<not> isNull (img_pixmap (images c ! i))))"

text \<open>The window of \<open>with_photo\<close> after \<^verbatim>\<open>toggle_drag_mode\<close> and a left press on the picture
  at (400, 400): the press selects the picture and takes a checkpoint.\<close>

definition dragging :: canvas_window where
  "dragging =
     (let c1 = with_photo\<lparr>drag_mode := True, selected_image_index := Some 0,
                           last_mouse_position := Some (400, 400)\<rparr>
      in c1\<lparr>undo_stack := undo_stack c1 @ [snapshot_of c1], redo_stack := []\<rparr>)"

text \<open>A decoded 600 by 40 picture, and the 800 by 600 window after importing it:
  \<^verbatim>\<open>import_image\<close> centres it at (200, 380), so its bottom-right corner is (799, 419).\<close>

definition ribbon :: qpixmap where
  "ribbon = QPixmap 600 40 Qt_white"

definition with_ribbon :: canvas_window where
  "with_ribbon =
     (init_window 800 600)
       \<lparr>undo_stack := [snapshot_of (init_window 800 600)],
        images := [\<lparr>img_pixmap = ribbon, original_pixmap = Some ribbon, img_x = 200,
                    img_y = 380, img_rect = QRect 200 380 600 40\<rparr>]\<rparr>"

text \<open>The same window after a left press on that corner and a move to (213, 419): the
  rectangle is 14 wide and 40 high, so the move is accepted; the aspect ratio is
  \<open>15.0\<close> and the new height is \<open>int(14 / 15.0) = 0\<close>. \<open>squeezed\<close> is the window after the
  press and the move when no mode is set.\<close>

definition squeezed :: "qt_env \<Rightarrow> canvas_window" where
  "squeezed env =
     with_ribbon
       \<lparr>selected_image_index := Some 0, last_mouse_position := Some (799, 419),
        anchor_clicked := Some BottomRight,
        undo_stack := undo_stack with_ribbon
                        @ [snapshot_of (with_ribbon\<lparr>selected_image_index := Some 0\<rparr>)],
        redo_stack := [],
        images := [\<lparr>img_pixmap = scaled env ribbon 14 0, original_pixmap = Some ribbon,
                    img_x = 200, img_y = 380, img_rect = QRect 200 380 14 0\<rparr>]\<rparr>"

text \<open>The window of \<open>with_photo\<close> after a left click on the picture at (400, 400), which
  selects it, then \<^verbatim>\<open>toggle_drawing_mode\<close> and \<^verbatim>\<open>toggle_scale_mode\<close>: the drawing flag and
  the scale flag are both set.\<close>

definition drawing_over_photo :: canvas_window where
  "drawing_over_photo =
     (let c1 = with_photo\<lparr>selected_image_index := Some 0,
                           last_mouse_position := Some (400, 400), drawing_mode := True\<rparr>
      in c1\<lparr>undo_stack := undo_stack c1 @ [snapshot_of c1], scale_mode := True\<rparr>)"

text \<open>The window of \<open>with_photo\<close> after a left click on the picture at (400, 400): the
  picture is selected, no corner is grabbed and no mode is set.\<close>

definition photo_selected :: canvas_window where
  "photo_selected =
     with_photo\<lparr>selected_image_index := Some 0, last_mouse_position := Some (400, 400)\<rparr>"

section \<open>Snapshots in the store\<close>

text \<open>
  Whether a stored snapshot shares an object with the live document cannot be seen in
  a model of values, so the history methods are modelled once more over a store of
  objects with addresses. The objects are those that the program changes in place:
  \<^verbatim>\<open>QPixmap\<close> (painted on through \<^verbatim>\<open>QPainter\<close>), \<^verbatim>\<open>QRect\<close> (\<^verbatim>\<open>setTopLeft\<close> ..., \<^verbatim>\<open>moveTo\<close>),
  the dictionary of an image (item assignment), the list \<^verbatim>\<open>images\<close> and the list
  \<^verbatim>\<open>text_objects\<close> (\<^verbatim>\<open>append\<close>, \<^verbatim>\<open>del\<close>). A snapshot gets a new dictionary for each text
  object, with the same \<^verbatim>\<open>QPoint\<close>, \<^verbatim>\<open>QFont\<close> and \<^verbatim>\<open>QColor\<close> objects as the live one; no
  line of the source changes a text dictionary or one of these three objects in
  place (\<^verbatim>\<open>set_text_settings\<close> assigns new ones), so a text object stays a value.
  Allocation appends to the store; an address is an index.

  The dictionary of an image holds the addresses of \<^verbatim>\<open>'pixmap'\<close>, \<^verbatim>\<open>'original_pixmap'\<close>
  and \<^verbatim>\<open>'rect'\<close> and the integers \<^verbatim>\<open>'x'\<close> and \<^verbatim>\<open>'y'\<close>. The dictionaries that
  \<^verbatim>\<open>open_project\<close> builds (lines 1520-1525) have no \<^verbatim>\<open>'original_pixmap'\<close>: the second
  address is optional, and reading it when it is absent is a \<^verbatim>\<open>KeyError\<close>.
\<close>

type_synonym addr = nat

datatype obj =
    Pixmap qpixmap
  | Rect qrect
  | ImgDict addr "addr option" int int addr
  | ImgList "addr list"
  | TextList "text_object list"

type_synonym store = "obj list"

definition lookup :: "store \<Rightarrow> addr \<Rightarrow> obj option" where
  "lookup st a = (if a < length st then Some (st ! a) else None)"

definition alloc :: "obj \<Rightarrow> store \<Rightarrow> addr \<times> store" where
  "alloc v st = (length st, st @ [v])"

text \<open>A document as a snapshot dictionary or the window refers to it: the addresses
  of its objects, the selected index and the three slider values.\<close>

record hdoc =
  d_images :: addr
  d_selected :: "nat option"
  d_pixmap :: addr
  d_overlay :: addr
  d_text :: addr
  d_threshold :: int
  d_sharp :: int
  d_gamma :: int

record hwindow =
  store :: store
  live :: hdoc
  h_undo_stack :: "hdoc list"
  h_redo_stack :: "hdoc list"

text \<open>\<^verbatim>\<open>QPixmap.copy()\<close> and \<^verbatim>\<open>QRect(rect)\<close>: a new object with the value of the old one.
  Reading an address that does not hold an object of the expected kind is a
  \<^verbatim>\<open>TypeError\<close>.\<close>

definition copy_pixmap :: "addr \<Rightarrow> store \<Rightarrow> py_error + addr \<times> store" where
  "copy_pixmap a st =
     (case lookup st a of Some (Pixmap p) \<Rightarrow> Inr (alloc (Pixmap p) st) | _ \<Rightarrow> Inl TypeError)"

definition copy_qrect :: "addr \<Rightarrow> store \<Rightarrow> py_error + addr \<times> store" where
  "copy_qrect a st =
     (case lookup st a of Some (Rect r) \<Rightarrow> Inr (alloc (Rect r) st) | _ \<Rightarrow> Inl TypeError)"

text \<open>One element of the list comprehension of lines 1555-1564: a new dictionary
  with a copy of the pixmap, a copy of the original pixmap, the two integers and a
  copy of the rectangle.\<close>

definition copy_image :: "addr \<Rightarrow> store \<Rightarrow> py_error + addr \<times> store" where
  "copy_image d st =
     (case lookup st d of
        Some (ImgDict p orig x y r) \<Rightarrow>
          bind (copy_pixmap p st) (\<lambda>(p', st1).
          case orig of
            None \<Rightarrow> Inl KeyError
          | Some a \<Rightarrow>
              bind (copy_pixmap a st1) (\<lambda>(orig', st2).
              bind (copy_qrect r st2) (\<lambda>(r', st3).
              Inr (alloc (ImgDict p' (Some orig') x y r') st3))))
      | _ \<Rightarrow> Inl TypeError)"

fun copy_images :: "addr list \<Rightarrow> store \<Rightarrow> py_error + addr list \<times> store" where
  "copy_images [] st = Inr ([], st)"
| "copy_images (d # ds) st =
     bind (copy_image d st) (\<lambda>(d', st1).
     bind (copy_images ds st1) (\<lambda>(ds', st2).
     Inr (d' # ds', st2)))"

text \<open>The dictionary of lines 1554-1582: the copied images in a new list, the selected
  index, a copy of the background pixmap, a copy of the overlay, the text objects
  in a new list, the slider values.\<close>

definition h_current_state :: "hdoc \<Rightarrow> store \<Rightarrow> py_error + hdoc \<times> store" where
  "h_current_state d st =
     (case lookup st (d_images d) of
        Some (ImgList ds) \<Rightarrow>
          bind (copy_images ds st) (\<lambda>(ds', st1).
          case alloc (ImgList ds') st1 of (il, st2) \<Rightarrow>
          bind (copy_pixmap (d_pixmap d) st2) (\<lambda>(p', st3).
          bind (copy_pixmap (d_overlay d) st3) (\<lambda>(o', st4).
          case lookup st4 (d_text d) of
            Some (TextList ts) \<Rightarrow>
              (case alloc (TextList ts) st4 of (t', st5) \<Rightarrow>
                 Inr (d\<lparr>d_images := il, d_pixmap := p', d_overlay := o', d_text := t'\<rparr>, st5))
          | _ \<Rightarrow> Inl TypeError)))
      | _ \<Rightarrow> Inl TypeError)"

text \<open>\<^verbatim>\<open>save_state\<close> over the store (lines 1552-1584). The mode flags are left out:
  they only guard the second clearing of a redo stack that line 1584 has already
  cleared. \<^verbatim>\<open>update_histogram\<close> is left out too, here and in the filter handlers: it
  changes nothing of the document, and where it raises the program has no later
  state.\<close>

definition h_save_state :: "hwindow \<Rightarrow> py_error + hwindow" where
  "h_save_state w =
     bind (h_current_state (live w) (store w)) (\<lambda>(s, st').
       Inr (w\<lparr>store := st', h_undo_stack := h_undo_stack w @ [s], h_redo_stack := []\<rparr>))"

text \<open>
  The assignment \<^verbatim>\<open>selected_image['pixmap'] = resized_pixmap\<close> that ends each filter
  handler: a new pixmap object, and the dictionary of image \<open>i\<close> refers to it.
\<close>

definition h_set_displayed :: "nat \<Rightarrow> qpixmap \<Rightarrow> hwindow \<Rightarrow> py_error + hwindow" where
  "h_set_displayed i px w =
     (case lookup (store w) (d_images (live w)) of
        Some (ImgList ds) \<Rightarrow>
          if i < length ds then
            (case lookup (store w) (ds ! i) of
               Some (ImgDict p orig x y r) \<Rightarrow>
                 (case alloc (Pixmap px) (store w) of (n, st1) \<Rightarrow>
                    Inr (w\<lparr>store := st1[ds ! i := ImgDict n orig x y r]\<rparr>))
             | _ \<Rightarrow> Inl TypeError)
          else Inl IndexError
      | _ \<Rightarrow> Inl TypeError)"

text \<open>A filter handler over the store: it returns at once without a selected image,
  and otherwise takes a checkpoint and shows the filtered original pixmap, resized to
  the displayed size. \<open>flt\<close> is the filter with the slider value already given.\<close>

definition h_filter_handler :: "qt_env \<Rightarrow> (qpixmap \<Rightarrow> qpixmap) \<Rightarrow> hwindow \<Rightarrow> py_error + hwindow" where
  "h_filter_handler env flt w =
     (case d_selected (live w) of
        None \<Rightarrow> Inr w
      | Some i \<Rightarrow>
          (case lookup (store w) (d_images (live w)) of
             Some (ImgList ds) \<Rightarrow>
               if ds = [] then Inr w
               else bind (h_save_state w) (\<lambda>w1.
                 if i < length ds then
                   (case lookup (store w1) (ds ! i) of
                      Some (ImgDict p orig x y r) \<Rightarrow>
                        (case orig of
                           None \<Rightarrow> Inl KeyError
                         | Some a \<Rightarrow>
                             (case (lookup (store w1) p, lookup (store w1) a) of
                                (Some (Pixmap shown), Some (Pixmap original)) \<Rightarrow>
                                  h_set_displayed i
                                    (resize_pixmap env (flt original) (pixmap_size shown)) w1
                              | _ \<Rightarrow> Inl TypeError))
                    | _ \<Rightarrow> Inl TypeError)
                 else Inl IndexError)
           | _ \<Rightarrow> Inl TypeError))"

text \<open>\<^verbatim>\<open>setValue\<close> on the three sliders, as in the value model.\<close>

definition h_threshold_setValue :: "qt_env \<Rightarrow> int \<Rightarrow> hwindow \<Rightarrow> py_error + hwindow" where
  "h_threshold_setValue env v w =
     (let v' = slider_bound 0 255 v
      in if v' = d_threshold (live w) then Inr w
         else h_filter_handler env (\<lambda>original. thresholding env original v')
                (w\<lparr>live := (live w)\<lparr>d_threshold := v'\<rparr>\<rparr>))"

definition h_sharp_setValue :: "qt_env \<Rightarrow> int \<Rightarrow> hwindow \<Rightarrow> py_error + hwindow" where
  "h_sharp_setValue env v w =
     (let v' = slider_bound 0 20 v
      in if v' = d_sharp (live w) then Inr w
         else h_filter_handler env
                (\<lambda>original. if v' = 0 then original else sharpening env original v')
                (w\<lparr>live := (live w)\<lparr>d_sharp := v'\<rparr>\<rparr>))"

definition h_gamma_setValue :: "qt_env \<Rightarrow> int \<Rightarrow> hwindow \<Rightarrow> py_error + hwindow" where
  "h_gamma_setValue env v w =
     (let v' = slider_bound 1 50 v
      in if v' = d_gamma (live w) then Inr w
         else h_filter_handler env (\<lambda>original. powerlaw env original v')
                (w\<lparr>live := (live w)\<lparr>d_gamma := v'\<rparr>\<rparr>))"

text \<open>Lines 1627-1636 and 1677-1686: the window takes over the objects of the popped
  dictionary, then the sliders are set.\<close>

definition h_restore :: "qt_env \<Rightarrow> hdoc \<Rightarrow> hwindow \<Rightarrow> py_error + hwindow" where
  "h_restore env s w =
     (let w1 = w\<lparr>live := (live w)\<lparr>d_images := d_images s, d_selected := d_selected s,
                                   d_pixmap := d_pixmap s, d_overlay := d_overlay s,
                                   d_text := d_text s\<rparr>\<rparr>
      in bind (h_threshold_setValue env (d_threshold s) w1) (\<lambda>w2.
         bind (h_sharp_setValue env (d_sharp s) w2) (\<lambda>w3.
         h_gamma_setValue env (d_gamma s) w3)))"

text \<open>\<^verbatim>\<open>undo_action\<close> and \<^verbatim>\<open>redo_action\<close> over the store.\<close>

definition h_undo_action :: "qt_env \<Rightarrow> hwindow \<Rightarrow> py_error + hwindow" where
  "h_undo_action env w =
     (if h_undo_stack w = [] then Inr w
      else bind (h_current_state (live w) (store w)) (\<lambda>(current, st').
        let w1 = w\<lparr>store := st', h_redo_stack := h_redo_stack w @ [current]\<rparr>;
            last_state = last (h_undo_stack w1);
            w2 = w1\<lparr>h_undo_stack := butlast (h_undo_stack w1)\<rparr>
        in h_restore env last_state w2))"

definition h_redo_action :: "qt_env \<Rightarrow> hwindow \<Rightarrow> py_error + hwindow" where
  "h_redo_action env w =
     (if h_redo_stack w = [] then Inr w
      else bind (h_current_state (live w) (store w)) (\<lambda>(current, st').
        let w1 = w\<lparr>store := st', h_undo_stack := h_undo_stack w @ [current]\<rparr>;
            next_state = last (h_redo_stack w1);
            w2 = w1\<lparr>h_redo_stack := butlast (h_redo_stack w1)\<rparr>
        in h_restore env next_state w2))"

text \<open>
  The ways in which the source changes the live document, each with the lines that
  do it. What is painted or assigned is arbitrary.
\<close>

datatype mutation =
    PaintBackground qpixmap
  | PaintOverlay qpixmap
  | SetRect nat qrect
  | SetPosition nat int int
  | SetDisplayed nat qpixmap
  | NewRect nat qrect
  | AppendImage qpixmap qpixmap int int qrect
  | AppendLoaded qpixmap int int qrect
  | DeleteImage nat
  | AppendText text_object
  | NewBackground qpixmap
  | NewOverlay qpixmap
  | NewImageList
  | NewTextList "text_object list"

text \<open>The dictionary of image \<open>i\<close> of the live document, with its address.\<close>

definition live_image ::
  "nat \<Rightarrow> hwindow \<Rightarrow> py_error + addr \<times> addr \<times> addr option \<times> int \<times> int \<times> addr" where
  "live_image i w =
     (case lookup (store w) (d_images (live w)) of
        Some (ImgList ds) \<Rightarrow>
          if i < length ds then
            (case lookup (store w) (ds ! i) of
               Some (ImgDict p orig x y r) \<Rightarrow> Inr (ds ! i, p, orig, x, y, r)
             | _ \<Rightarrow> Inl TypeError)
          else Inl IndexError
      | _ \<Rightarrow> Inl TypeError)"

fun apply_mutation :: "mutation \<Rightarrow> hwindow \<Rightarrow> py_error + hwindow" where
  "apply_mutation (PaintBackground px) w =
     \<comment> \<open>\<^verbatim>\<open>QPainter(self.canvas.pixmap)\<close>, lines 361, 461, 510\<close>
     (case lookup (store w) (d_pixmap (live w)) of
        Some (Pixmap old) \<Rightarrow> Inr (w\<lparr>store := (store w)[d_pixmap (live w) := Pixmap px]\<rparr>)
      | _ \<Rightarrow> Inl TypeError)"
| "apply_mutation (PaintOverlay px) w =
     \<comment> \<open>\<^verbatim>\<open>overlay_pixmap.fill\<close> and \<^verbatim>\<open>QPainter(self.canvas.overlay_pixmap)\<close>, lines 345-347, 449, 499\<close>
     (case lookup (store w) (d_overlay (live w)) of
        Some (Pixmap old) \<Rightarrow> Inr (w\<lparr>store := (store w)[d_overlay (live w) := Pixmap px]\<rparr>)
      | _ \<Rightarrow> Inl TypeError)"
| "apply_mutation (SetRect i rect) w =
     \<comment> \<open>\<^verbatim>\<open>rect.setTopLeft(pos)\<close> ..., \<^verbatim>\<open>img_data['rect'].moveTo\<close>, lines 1809-1815, 3241, 3249\<close>
     bind (live_image i w) (\<lambda>(d, p, orig, x, y, r).
       case lookup (store w) r of
         Some (Rect old) \<Rightarrow> Inr (w\<lparr>store := (store w)[r := Rect rect]\<rparr>)
       | _ \<Rightarrow> Inl TypeError)"
| "apply_mutation (SetPosition i x' y') w =
     \<comment> \<open>\<^verbatim>\<open>img_data['x'] += delta.x()\<close>, \<^verbatim>\<open>img['x'] = ...\<close>, lines 2240-2241, 3239-3240, 3247-3248\<close>
     bind (live_image i w) (\<lambda>(d, p, orig, x, y, r).
       Inr (w\<lparr>store := (store w)[d := ImgDict p orig x' y' r]\<rparr>))"
| "apply_mutation (SetDisplayed i px) w =
     \<comment> \<open>\<^verbatim>\<open>img_data['pixmap'] = ...\<close>, lines 1829, 2170, 2201, 2210, 2239, 2350 and the same
         assignment at the end of every later filter handler, up to line 3142\<close>
     h_set_displayed i px w"
| "apply_mutation (NewRect i rect) w =
     \<comment> \<open>\<^verbatim>\<open>img_data['rect'] = QRect(...)\<close>, lines 1833, 2171, 2242\<close>
     bind (live_image i w) (\<lambda>(d, p, orig, x, y, r).
       case alloc (Rect rect) (store w) of (n, st1) \<Rightarrow>
         Inr (w\<lparr>store := st1[d := ImgDict p orig x y n]\<rparr>))"
| "apply_mutation (AppendImage px orig x y rect) w =
     \<comment> \<open>\<^verbatim>\<open>self.images.append({...})\<close>, line 1718\<close>
     (case lookup (store w) (d_images (live w)) of
        Some (ImgList ds) \<Rightarrow>
          (case alloc (Pixmap px) (store w) of (p, st1) \<Rightarrow>
           case alloc (Pixmap orig) st1 of (o', st2) \<Rightarrow>
           case alloc (Rect rect) st2 of (r, st3) \<Rightarrow>
           case alloc (ImgDict p (Some o') x y r) st3 of (d, st4) \<Rightarrow>
             Inr (w\<lparr>store := st4[d_images (live w) := ImgList (ds @ [d])]\<rparr>))
      | _ \<Rightarrow> Inl TypeError)"
| "apply_mutation (AppendLoaded px x y rect) w =
     \<comment> \<open>\<^verbatim>\<open>self.images.append({...})\<close> of \<^verbatim>\<open>open_project\<close>, line 1520: no \<^verbatim>\<open>'original_pixmap'\<close>\<close>
     (case lookup (store w) (d_images (live w)) of
        Some (ImgList ds) \<Rightarrow>
          (case alloc (Pixmap px) (store w) of (p, st1) \<Rightarrow>
           case alloc (Rect rect) st1 of (r, st2) \<Rightarrow>
           case alloc (ImgDict p None x y r) st2 of (d, st3) \<Rightarrow>
             Inr (w\<lparr>store := st3[d_images (live w) := ImgList (ds @ [d])]\<rparr>))
      | _ \<Rightarrow> Inl TypeError)"
| "apply_mutation (DeleteImage i) w =
     \<comment> \<open>\<^verbatim>\<open>del self.images[self.selected_image_index]\<close>, line 2176\<close>
     (case lookup (store w) (d_images (live w)) of
        Some (ImgList ds) \<Rightarrow>
          if i < length ds then
            Inr (w\<lparr>store := (store w)[d_images (live w) := ImgList (take i ds @ drop (Suc i) ds)],
                   live := (live w)\<lparr>d_selected := None\<rparr>\<rparr>)
          else Inl IndexError
      | _ \<Rightarrow> Inl TypeError)"
| "apply_mutation (AppendText t) w =
     \<comment> \<open>\<^verbatim>\<open>self.text_objects.append(text_obj)\<close>, lines 224, 263\<close>
     (case lookup (store w) (d_text (live w)) of
        Some (TextList ts) \<Rightarrow> Inr (w\<lparr>store := (store w)[d_text (live w) := TextList (ts @ [t])]\<rparr>)
      | _ \<Rightarrow> Inl TypeError)"
| "apply_mutation (NewBackground px) w =
     \<comment> \<open>\<^verbatim>\<open>self.pixmap = ...\<close>, lines 1510, 2245\<close>
     (case alloc (Pixmap px) (store w) of (n, st1) \<Rightarrow>
        Inr (w\<lparr>store := st1, live := (live w)\<lparr>d_pixmap := n\<rparr>\<rparr>))"
| "apply_mutation (NewOverlay px) w =
     \<comment> \<open>\<^verbatim>\<open>self.overlay_pixmap = ...\<close>, lines 1514, 2253\<close>
     (case alloc (Pixmap px) (store w) of (n, st1) \<Rightarrow>
        Inr (w\<lparr>store := st1, live := (live w)\<lparr>d_overlay := n\<rparr>\<rparr>))"
| "apply_mutation NewImageList w =
     \<comment> \<open>\<^verbatim>\<open>self.images = []\<close>, line 1517\<close>
     (case alloc (ImgList []) (store w) of (n, st1) \<Rightarrow>
        Inr (w\<lparr>store := st1, live := (live w)\<lparr>d_images := n\<rparr>\<rparr>))"
| "apply_mutation (NewTextList ts) w =
     \<comment> \<open>\<^verbatim>\<open>self.text_tool.text_objects = [...]\<close>, line 1528\<close>
     (case alloc (TextList ts) (store w) of (n, st1) \<Rightarrow>
        Inr (w\<lparr>store := st1, live := (live w)\<lparr>d_text := n\<rparr>\<rparr>))"

text \<open>What a document refers to, directly or through its image list and its image
  dictionaries.\<close>

definition image_refs :: "store \<Rightarrow> addr \<Rightarrow> addr set" where
  "image_refs st d =
     (case lookup st d of
        Some (ImgDict p orig x y r) \<Rightarrow> {p, r} \<union> set_option orig
      | _ \<Rightarrow> {})"

definition footprint :: "store \<Rightarrow> hdoc \<Rightarrow> addr set" where
  "footprint st d =
     {d_images d, d_pixmap d, d_overlay d, d_text d}
     \<union> (case lookup st (d_images d) of
          Some (ImgList ds) \<Rightarrow> set ds \<union> (\<Union>a \<in> set ds. image_refs st a)
        | _ \<Rightarrow> {})"

text \<open>The value of a document in a store: the dictionary of the value model, when
  every address holds an object of the expected kind and every image dictionary has
  its \<^verbatim>\<open>'original_pixmap'\<close>.\<close>

definition view_image :: "store \<Rightarrow> addr \<Rightarrow> img_data option" where
  "view_image st d =
     (case lookup st d of
        Some (ImgDict p (Some orig) x y r) \<Rightarrow>
          (case (lookup st p, lookup st orig, lookup st r) of
             (Some (Pixmap pp), Some (Pixmap oo), Some (Rect rr)) \<Rightarrow>
               Some \<lparr>img_pixmap = pp, original_pixmap = Some oo, img_x = x, img_y = y,
                     img_rect = rr\<rparr>
           | _ \<Rightarrow> None)
      | _ \<Rightarrow> None)"

definition view :: "store \<Rightarrow> hdoc \<Rightarrow> snapshot option" where
  "view st d =
     (case (lookup st (d_images d), lookup st (d_pixmap d), lookup st (d_overlay d),
            lookup st (d_text d)) of
        (Some (ImgList ds), Some (Pixmap p), Some (Pixmap ov), Some (TextList ts)) \<Rightarrow>
          (case those (map (view_image st) ds) of
             Some imgs \<Rightarrow>
               Some \<lparr>s_images = imgs, s_selected_image_index = d_selected d, s_pixmap = p,
                     s_overlay_pixmap = ov, s_text_objects = ts,
                     threshold_value = d_threshold d, sharp_value = d_sharp d,
                     gamma_value = d_gamma d\<rparr>
           | None \<Rightarrow> None)
      | _ \<Rightarrow> None)"

text \<open>The values of the stored snapshots, undo stack and redo stack.\<close>

definition stored_views :: "hwindow \<Rightarrow> snapshot option list \<times> snapshot option list" where
  "stored_views w =
     (map (view (store w)) (h_undo_stack w), map (view (store w)) (h_redo_stack w))"

text \<open>The window of \<^verbatim>\<open>CanvasWindow.__init__\<close> over the store: the two pixmaps and the
  two empty lists are the first four objects.\<close>

definition h_init_window :: "int \<Rightarrow> int \<Rightarrow> hwindow" where
  "h_init_window w h =
     \<lparr>store = [Pixmap (QPixmap w h Qt_white), Pixmap (QPixmap w h Qt_transparent),
               ImgList [], TextList []],
      live = \<lparr>d_images = 2, d_selected = None, d_pixmap = 0, d_overlay = 1, d_text = 3,
               d_threshold = 127, d_sharp = 0, d_gamma = 10\<rparr>,
      h_undo_stack = [], h_redo_stack = []\<rparr>"

text \<open>The states of the window that the history methods and the changes of the live
  document lead to; \<open>Select\<close> is the assignment of \<^verbatim>\<open>selected_image_index\<close> in
  \<^verbatim>\<open>mousePressEvent\<close>.\<close>

inductive hreach :: "qt_env \<Rightarrow> hwindow \<Rightarrow> bool" for env where
  Init: "hreach env (h_init_window w h)"
| Save: "hreach env w \<Longrightarrow> h_save_state w = Inr w' \<Longrightarrow> hreach env w'"
| Undo: "hreach env w \<Longrightarrow> h_undo_action env w = Inr w' \<Longrightarrow> hreach env w'"
| Redo: "hreach env w \<Longrightarrow> h_redo_action env w = Inr w' \<Longrightarrow> hreach env w'"
| Mutate: "hreach env w \<Longrightarrow> apply_mutation m w = Inr w' \<Longrightarrow> hreach env w'"
| Select: "hreach env w \<Longrightarrow> hreach env (w\<lparr>live := (live w)\<lparr>d_selected := sel\<rparr>\<rparr>)"
| Threshold: "hreach env w \<Longrightarrow> h_threshold_setValue env v w = Inr w' \<Longrightarrow> hreach env w'"
| Sharp: "hreach env w \<Longrightarrow> h_sharp_setValue env v w = Inr w' \<Longrightarrow> hreach env w'"
| Gamma: "hreach env w \<Longrightarrow> h_gamma_setValue env v w = Inr w' \<Longrightarrow> hreach env w'"

text \<open>Every address of a document is an address of the store.\<close>

definition bounded :: "store \<Rightarrow> hdoc \<Rightarrow> bool" where
  "bounded st d \<longleftrightarrow> footprint st d \<subseteq> {..<length st}"

text \<open>
  The separation of the stored snapshots: no stored snapshot shares an address with
  the live document or with another stored snapshot.
\<close>

definition sep :: "store \<Rightarrow> hdoc \<Rightarrow> hdoc list \<Rightarrow> bool" where
  "sep st lv snaps \<longleftrightarrow>
     bounded st lv
     \<and> distinct snaps
     \<and> (\<forall>s \<in> set snaps.
           bounded st s
           \<and> footprint st s \<inter> footprint st lv = {}
           \<and> (\<forall>t \<in> set snaps. s \<noteq> t \<longrightarrow> footprint st s \<inter> footprint st t = {}))"

definition separated :: "hwindow \<Rightarrow> bool" where
  "separated w \<longleftrightarrow> sep (store w) (live w) (h_undo_stack w @ h_redo_stack w)"

text \<open>The objects that refer to no other object.\<close>

definition plain :: "obj \<Rightarrow> bool" where
  "plain v = (case v of ImgList ds \<Rightarrow> False | ImgDict p orig x y r \<Rightarrow> False | _ \<Rightarrow> True)"

text \<open>Every stored snapshot has a value: each of its addresses holds an object of
  the expected kind.\<close>

definition stored_defined :: "hwindow \<Rightarrow> bool" where
  "stored_defined w \<longleftrightarrow> None \<notin> set (fst (stored_views w) @ snd (stored_views w))"

subsection \<open>An example: scaling an imported picture\<close>

text \<open>The window over the store after \<^verbatim>\<open>import_image\<close> of the 400 by 300 picture (one
  checkpoint of the empty canvas, then the picture appended at (300, 250)).\<close>

definition h_imported_window :: hwindow where
  "h_imported_window =
     \<lparr>store = [Pixmap (QPixmap 800 600 Qt_white), Pixmap (QPixmap 800 600 Qt_transparent),
               ImgList [11], TextList [],
               ImgList [], Pixmap (QPixmap 800 600 Qt_white),
               Pixmap (QPixmap 800 600 Qt_transparent), TextList [],
               Pixmap photo, Pixmap photo, Rect (QRect 300 250 400 300),
               ImgDict 8 (Some 9) 300 250 10],
      live = \<lparr>d_images = 2, d_selected = None, d_pixmap = 0, d_overlay = 1, d_text = 3,
               d_threshold = 127, d_sharp = 0, d_gamma = 10\<rparr>,
      h_undo_stack = [\<lparr>d_images = 4, d_selected = None, d_pixmap = 5, d_overlay = 6,
                        d_text = 7, d_threshold = 127, d_sharp = 0, d_gamma = 10\<rparr>],
      h_redo_stack = []\<rparr>"

text \<open>The same window after the checkpoint that \<^verbatim>\<open>mousePressEvent\<close> takes when an
  anchor is grabbed: the copies of the picture are the cells 12 to 15.\<close>

definition h_pressed_window :: hwindow where
  "h_pressed_window =
     h_imported_window
       \<lparr>store := store h_imported_window @
                 [Pixmap photo, Pixmap photo, Rect (QRect 300 250 400 300),
                  ImgDict 12 (Some 13) 300 250 14, ImgList [15],
                  Pixmap (QPixmap 800 600 Qt_white), Pixmap (QPixmap 800 600 Qt_transparent),
                  TextList []],
        h_undo_stack := h_undo_stack h_imported_window @
                 [\<lparr>d_images = 16, d_selected = None, d_pixmap = 17, d_overlay = 18,
                   d_text = 19, d_threshold = 127, d_sharp = 0, d_gamma = 10\<rparr>]\<rparr>"

text \<open>\<^verbatim>\<open>scale_image\<close> then moves a corner of the rect object of the live image, in
  place (cell 10).\<close>

definition h_scaled_window :: hwindow where
  "h_scaled_window =
     h_pressed_window\<lparr>store := (store h_pressed_window)[10 := Rect (QRect 300 250 500 375)]\<rparr>"

text \<open>The rects of the images of the snapshots on the undo stack, and of the live
  document.\<close>

definition stored_rects :: "hwindow \<Rightarrow> qrect list option list" where
  "stored_rects w = map (map_option (map img_rect \<circ> s_images)) (fst (stored_views w))"

definition live_rects :: "hwindow \<Rightarrow> qrect list option" where
  "live_rects w = map_option (map img_rect \<circ> s_images) (view (store w) (live w))"

section \<open>Properties of the float model\<close>

lemma pow2_pos: "0 < pow2 k"
  by (simp add: pow2_def)

lemma pow2_powi: "pow2 k = 2 powi k"
  by (simp add: pow2_def power_int_def field_simps)

lemma pow2_ilog2_le:
  assumes "0 < a"
  shows "pow2 (ilog2 a) \<le> a"
proof (cases "1 \<le> a")
  case True
  define n where "n = nat \<lfloor>a\<rfloor>"
  have n1: "0 < n" using True by (simp add: n_def)
  have "2 ^ (floorlog 2 n - 1) \<le> n"
    using floorlog_bounds[of n 2] n1 by simp
  moreover have fl: "0 < floorlog 2 n" using n1 by (simp add: floorlog_def)
  moreover have "(of_nat n :: rat) \<le> a"
    using True by (simp add: n_def)
  ultimately have "(2::rat) ^ (floorlog 2 n - 1) \<le> a"
    by (metis (mono_tags) of_nat_le_iff of_nat_numeral of_nat_power order_trans)
  moreover have "ilog2 a = int (floorlog 2 n - 1)"
    using True fl by (simp add: ilog2_def n_def)
  ultimately show ?thesis by (simp add: pow2_def)
next
  case False
  define m where "m = nat (\<lceil>1 / a\<rceil> - 1)"
  define L where "L = floorlog 2 m"
  have "1 < 1 / a" using False assms by simp
  then have c2: "2 \<le> \<lceil>1 / a\<rceil>" by linarith
  then have m1: "0 < m" unfolding m_def by linarith
  have "m < 2 ^ L" using floorlog_bounds[of m 2] m1 by (simp add: L_def)
  then have "m + 1 \<le> 2 ^ L" by simp
  moreover have "int (m + 1) = \<lceil>1 / a\<rceil>" using c2 unfolding m_def by linarith
  ultimately have "\<lceil>1 / a\<rceil> \<le> 2 ^ L"
    by (metis of_nat_le_iff of_nat_numeral of_nat_power)
  then have "1 / a \<le> 2 ^ L"
    by (metis ceiling_le_iff of_int_numeral of_int_power)
  then have "1 / 2 ^ L \<le> a" using assms
    by (simp add: field_simps)
  moreover have "ilog2 a = - int L" using False by (simp add: ilog2_def L_def m_def)
  ultimately show ?thesis by (auto simp add: pow2_def)
qed

lemma round_half_even_ge: "v - 1 / 2 \<le> of_int (round_half_even v)"
  unfolding round_half_even_def Let_def by (auto; linarith)

text \<open>Rounding never takes a quotient that is not zero to zero: the mantissa is at
  least \<open>2^52\<close>.\<close>

lemma round_double_eq_0_iff: "round_double q = 0 \<longleftrightarrow> q = 0"
proof (cases "q = 0")
  case True then show ?thesis by (simp add: round_double_def)
next
  case False
  define a where "a = \<bar>q\<bar>"
  define k where "k = ilog2 a - 52"
  have a: "0 < a" using False by (simp add: a_def)
  have "pow2 (ilog2 a) = pow2 k * 2 ^ 52"
    unfolding k_def pow2_powi by (simp add: power_int_diff)
  then have "pow2 k * 2 ^ 52 \<le> a" using pow2_ilog2_le[OF a] by simp
  then have "2 ^ 52 \<le> a / pow2 k" using pow2_pos[of k] by (simp add: field_simps)
  then have "0 < (of_int (round_half_even (a / pow2 k)) :: rat)"
    using round_half_even_ge[of "a / pow2 k"] by (simp; linarith)
  then have "round_double q \<noteq> 0"
    using False pow2_pos[of k] by (simp add: round_double_def Let_def a_def k_def sgn_eq_0_iff)
  then show ?thesis using False by simp
qed

lemma py_int_bounds:
  assumes "0 \<le> v" "v \<le> of_int n"
  shows "0 \<le> py_int v \<and> py_int v \<le> n"
  using assms by (simp add: py_int_def floor_le_iff)

lemma clamp_py_int:
  assumes "0 < n"
  shows "0 \<le> py_int (max 0 (min v (of_int n))) \<and> py_int (max 0 (min v (of_int n))) \<le> n"
  by (rule py_int_bounds) (use assms in auto)

section \<open>Screen to canvas coordinates: the mapping and its range\<close>

text \<open>
  Claim C9. For a window whose background pixmap is not empty and whose width and
  height are not zero, and for every widget point, \<^verbatim>\<open>map_to_canvas\<close> returns (it does
  not raise) the point whose x is the float quotient of \<open>widgetX - originX\<close> by
  \<open>scaleX = width / bufferWidth\<close>, clamped to \<open>[0, bufferWidth]\<close> and truncated to an
  integer, and likewise for y; the result lies in \<open>[0, bufferWidth] \<times> [0, bufferHeight]\<close>.
  The function takes the window state and returns a point and nothing else, so it
  changes no state and equal arguments give equal results; the mappings of the
  shape tool and of the eraser are the same function.
\<close>

theorem map_to_canvas_clamped:
  assumes "0 < pm_width (pixmap c)" and "0 < pm_height (pixmap c)"
    and "width c \<noteq> 0" and "height c \<noteq> 0"
  shows "DrawingTool_map_to_canvas c p =
           Inr (py_int (max 0 (min (round_double (of_int (fst p - canvas_x c)
                    / round_double (of_int (width c) / of_int (pm_width (pixmap c)))))
                  (of_int (pm_width (pixmap c))))),
                py_int (max 0 (min (round_double (of_int (snd p - canvas_y c)
                    / round_double (of_int (height c) / of_int (pm_height (pixmap c)))))
                  (of_int (pm_height (pixmap c))))))
         \<and> (case DrawingTool_map_to_canvas c p of
               Inr q \<Rightarrow> 0 \<le> fst q \<and> fst q \<le> pm_width (pixmap c)
                        \<and> 0 \<le> snd q \<and> snd q \<le> pm_height (pixmap c)
             | Inl e \<Rightarrow> False)
         \<and> ShapeTool_map_to_canvas c p = DrawingTool_map_to_canvas c p
         \<and> EraseTool_map_to_canvas c p = DrawingTool_map_to_canvas c p"
proof -
  have sx: "round_double (of_int (width c) / of_int (pm_width (pixmap c))) \<noteq> 0"
    using assms by (simp add: round_double_eq_0_iff)
  have sy: "round_double (of_int (height c) / of_int (pm_height (pixmap c))) \<noteq> 0"
    using assms by (simp add: round_double_eq_0_iff)
  have eq: "DrawingTool_map_to_canvas c p =
           Inr (py_int (max 0 (min (round_double (of_int (fst p - canvas_x c)
                    / round_double (of_int (width c) / of_int (pm_width (pixmap c)))))
                  (of_int (pm_width (pixmap c))))),
                py_int (max 0 (min (round_double (of_int (snd p - canvas_y c)
                    / round_double (of_int (height c) / of_int (pm_height (pixmap c)))))
                  (of_int (pm_height (pixmap c))))))"
    using assms sx sy
    by (simp add: DrawingTool_map_to_canvas_def py_truediv_def bind_def Let_def)
  have same: "ShapeTool_map_to_canvas c p = DrawingTool_map_to_canvas c p"
    "EraseTool_map_to_canvas c p = DrawingTool_map_to_canvas c p"
    by (simp_all add: DrawingTool_map_to_canvas_def ShapeTool_map_to_canvas_def
        EraseTool_map_to_canvas_def)
  show ?thesis
    using clamp_py_int[OF assms(1)] clamp_py_int[OF assms(2)] same
    by (simp add: eq)
qed

text \<open>On a new 800 by 600 canvas, whose origin is at (100, 100), the widget point
  (110, 150) is the canvas point (10, 50).\<close>

theorem map_to_canvas_clamped_witness:
  "0 < pm_width (pixmap (init_window 800 600)) \<and> 0 < pm_height (pixmap (init_window 800 600))
   \<and> width (init_window 800 600) \<noteq> 0 \<and> height (init_window 800 600) \<noteq> 0
   \<and> DrawingTool_map_to_canvas (init_window 800 600) (110, 150) = Inr (10, 50)
   \<and> ShapeTool_map_to_canvas (init_window 800 600) (110, 150) = Inr (10, 50)
   \<and> EraseTool_map_to_canvas (init_window 800 600) (110, 150) = Inr (10, 50)"
proof -
  have h: "0 < pm_width (pixmap (init_window 800 600))"
    "0 < pm_height (pixmap (init_window 800 600))"
    "width (init_window 800 600) \<noteq> 0" "height (init_window 800 600) \<noteq> 0"
    by (simp_all add: init_window_def QPixmap_def)
  have r1: "round_double 1 = 1" by code_simp
  have r10: "round_double 10 = 10" by code_simp
  have r50: "round_double 50 = 50" by code_simp
  have v: "DrawingTool_map_to_canvas (init_window 800 600) (110, 150) = Inr (10, 50)"
    using map_to_canvas_clamped[OF h, of "(110, 150)"]
    by (simp add: init_window_def QPixmap_def r1 r10 r50 py_int_def)
  show ?thesis
    using h v map_to_canvas_clamped[OF h, of "(110, 150)"] by simp
qed

section \<open>Checkpoints\<close>

lemma copy_texts_id:
  "map (\<lambda>t. \<lparr>to_position = to_position t, to_text = to_text t, to_font = to_font t,
                to_color = to_color t, to_opacity = to_opacity t\<rparr>) ts = ts"
  by (induction ts) simp_all

text \<open>The list comprehension of \<^verbatim>\<open>save_state\<close> raises \<^verbatim>\<open>KeyError\<close> when an image has no
  original pixmap, and otherwise gives the images as they are.\<close>

lemma copy_dict_eq:
  "copy_dict img = (if original_pixmap img = None then Inl KeyError else Inr img)"
  by (cases "original_pixmap img") (simp_all add: copy_dict_def)

lemma copy_dicts_eq:
  "copy_dicts imgs =
     (if list_all (\<lambda>img. original_pixmap img \<noteq> None) imgs then Inr imgs else Inl KeyError)"
  by (induction imgs) (simp_all add: copy_dict_eq bind_def)

lemma current_state_eq:
  "current_state c = (if has_originals c then Inr (snapshot_of c) else Inl KeyError)"
  by (simp add: current_state_def copy_dicts_eq has_originals_def snapshot_of_def bind_def
      copy_texts_id)

lemma update_histogram_eq:
  "update_histogram c =
     (if histogram_ready c then Inr c
      else case selected_image_index c of
             None \<Rightarrow> Inr c
           | Some i \<Rightarrow> if i < length (images c) then Inl AttributeError else Inl IndexError)"
  by (simp add: update_histogram_def histogram_ready_def split: option.splits)

lemma update_histogram_ready: "histogram_ready c \<Longrightarrow> update_histogram c = Inr c"
  by (simp add: update_histogram_eq)

lemma update_histogram_Inr: "update_histogram c = Inr c' \<Longrightarrow> c' = c \<and> histogram_ready c"
  by (auto simp add: update_histogram_def histogram_ready_def split: if_splits option.splits)

lemma histogram_ready_stacks [simp]:
  "histogram_ready (c\<lparr>undo_stack := u\<rparr>) = histogram_ready c"
  "histogram_ready (c\<lparr>redo_stack := r\<rparr>) = histogram_ready c"
  "histogram_ready (c\<lparr>anchor_clicked := a\<rparr>) = histogram_ready c"
  "histogram_ready (c\<lparr>last_mouse_position := p\<rparr>) = histogram_ready c"
  by (simp_all add: histogram_ready_def split: option.splits)

lemma has_originals_stacks [simp]:
  "has_originals (c\<lparr>undo_stack := u\<rparr>) = has_originals c"
  "has_originals (c\<lparr>redo_stack := r\<rparr>) = has_originals c"
  "has_originals (c\<lparr>anchor_clicked := a\<rparr>) = has_originals c"
  "has_originals (c\<lparr>last_mouse_position := p\<rparr>) = has_originals c"
  "has_originals (c\<lparr>selected_image_index := s\<rparr>) = has_originals c"
  by (simp_all add: has_originals_def)

text \<open>\<^verbatim>\<open>save_state\<close>, whatever the mode flags are: \<^verbatim>\<open>KeyError\<close> when an image has no
  original pixmap, the exception of \<^verbatim>\<open>update_histogram\<close> when the histogram cannot be
  drawn, and otherwise the snapshot appended and the redo stack empty.\<close>

lemma save_state_eq:
  "save_state c =
     (if \<not> has_originals c then Inl KeyError
      else case update_histogram c of
             Inl e \<Rightarrow> Inl e
           | Inr c0 \<Rightarrow> Inr (c\<lparr>undo_stack := undo_stack c @ [snapshot_of c], redo_stack := []\<rparr>))"
  by (simp add: save_state_def current_state_eq bind_def Let_def update_histogram_def
      split: option.splits)

lemma save_state_ready:
  "has_originals c \<Longrightarrow> histogram_ready c \<Longrightarrow>
   save_state c = Inr (c\<lparr>undo_stack := undo_stack c @ [snapshot_of c], redo_stack := []\<rparr>)"
  by (simp add: save_state_eq update_histogram_ready)

lemma save_state_Inr:
  "save_state c = Inr c' \<Longrightarrow>
   c' = c\<lparr>undo_stack := undo_stack c @ [snapshot_of c], redo_stack := []\<rparr>
   \<and> has_originals c \<and> histogram_ready c"
  by (auto simp add: save_state_eq split: if_splits sum.splits dest: update_histogram_Inr)

lemma pm_size_QPixmap [simp]: "pm_width (QPixmap w h c) = w" "pm_height (QPixmap w h c) = h"
  by (simp_all add: QPixmap_def)

text \<open>The example documents are states of the program: importing the picture,
  switching to scale mode and pressing on the corner lead to them.\<close>

lemma import_photo: "import_image env (Some photo) (init_window 800 600) = Inr with_photo"
  by (simp add: import_image_def bind_def Let_def save_state_eq update_histogram_def
      has_originals_def init_window_def with_photo_def photo_def gamma_slider_setValue_def
      slider_bound_def snapshot_of_def)

lemma toggle_scale_ready: "toggle_scale_mode with_photo = Inr scale_ready"
  by (simp add: toggle_scale_mode_def scale_ready_def with_photo_def init_window_def Let_def)









text \<open>A drag of the imported picture: the press is the boundary of the gesture and
  takes the checkpoint, the move that follows carries the picture 50 pixels to the
  right and leaves both stacks as they are.\<close>

lemma press_drags:
  "bind (toggle_drag_mode with_photo) (mousePressEvent env (left_at (400, 400))) = Inr dragging"
  by (simp add: toggle_drag_mode_def bind_def mousePressEvent_def with_photo_def
      init_window_def left_at_def contains_def QRect_def Let_def dragging_def
      save_state_eq has_originals_def update_histogram_def isNull_def photo_def
      snapshot_of_def)


section \<open>Tool modes are independent flags\<close>

text \<open>
  Claim C4, evaluated on a new window. Drawing and then Shape leaves exactly the shape
  flag set, as the claim says. Shape and then Drawing leaves both flags set:
  \<^verbatim>\<open>toggle_shape_mode\<close> clears \<^verbatim>\<open>drawing_mode\<close>, but \<^verbatim>\<open>toggle_drawing_mode\<close> does not
  clear \<^verbatim>\<open>shape_mode\<close>. Crop and then Text leaves both of those set as well.
\<close>

theorem mode_flags_coexist:
  "(case bind (toggle_drawing_mode (init_window 800 600)) toggle_shape_mode of
      Inr c \<Rightarrow> active_modes c = [Shape] | Inl e \<Rightarrow> False)
   \<and> (case bind (toggle_shape_mode (init_window 800 600)) toggle_drawing_mode of
      Inr c \<Rightarrow> active_modes c = [Drawing, Shape] | Inl e \<Rightarrow> False)
   \<and> (case bind (toggle_crop_mode (init_window 800 600)) toggle_text_mode of
      Inr c \<Rightarrow> active_modes c = [Text, Crop] | Inl e \<Rightarrow> False)"
  by (simp add: toggle_drawing_mode_def toggle_shape_mode_def toggle_crop_mode_def
      toggle_text_mode_def bind_def Let_def
      save_state_eq has_originals_def update_histogram_def active_modes_def init_window_def)

section \<open>Anchor scaling\<close>

lemma scale_image_rejected:
  assumes "i < length (images c)" and "anchor_clicked c = Some a"
    and "\<not> (10 < rect_width (set_corner a pos (img_rect (images c ! i)))
           \<and> 10 < rect_height (set_corner a pos (img_rect (images c ! i))))"
  shows "scale_image env pos i c =
     Inr (c\<lparr>images := (images c)
            [i := (images c ! i)\<lparr>img_rect := set_corner a pos (img_rect (images c ! i))\<rparr>]\<rparr>)"
  using assms by (auto simp add: scale_image_def Let_def)

text \<open>
  Claim C7, evaluated. The picture is 400 by 300 at (300, 250) and its bottom-right
  corner is grabbed. A move to (305, 255) would make it 6 by 6, so it is rejected:
  the displayed pixmap, the position and the undo stack are as before, but the
  rectangle of the picture is now 6 by 6, because \<^verbatim>\<open>setBottomRight\<close> has already changed
  the rectangle that the dictionary holds.
\<close>

theorem rejected_move_changes_rect:
  "(case scale_image simple_qt (305, 255) 0 grabbed of
      Inr c' \<Rightarrow> img_pixmap (images c' ! 0) = img_pixmap (images grabbed ! 0)
               \<and> img_x (images c' ! 0) = img_x (images grabbed ! 0)
               \<and> img_y (images c' ! 0) = img_y (images grabbed ! 0)
               \<and> undo_stack c' = undo_stack grabbed
               \<and> img_rect (images grabbed ! 0) = QRect 300 250 400 300
               \<and> img_rect (images c' ! 0) = QRect 300 250 6 6
               \<and> pixmap_size (img_pixmap (images c' ! 0)) = (400, 300)
    | Inl e \<Rightarrow> False)"
  by (simp add: scale_image_def Let_def grabbed_def scale_ready_def with_photo_def photo_def
      setBottomRight_def QRect_def rect_width_def rect_height_def pixmap_size_def)

text \<open>
  Claim C8. For every accepted anchor-scale move (a corner is grabbed, the rectangle
  from the grabbed corner to the pointer is more than 10 wide and more than 10 high,
  and the image has an original pixmap, which is not empty), \<^verbatim>\<open>scale_image\<close> returns;
  the new width is the width of that rectangle, the new height is
  \<open>int(new_width / aspect_ratio)\<close> with \<open>aspect_ratio\<close> the float quotient of the original
  pixmap's width by its height, the displayed pixmap is the original pixmap resampled
  to that size, and the rectangle gets that size at its top-left corner. Nothing else
  in the window changes.
\<close>

theorem scale_image_accepted:
  assumes "i < length (images c)" and "anchor_clicked c = Some a"
    and "10 < rect_width (set_corner a pos (img_rect (images c ! i)))"
    and "10 < rect_height (set_corner a pos (img_rect (images c ! i)))"
    and "original_pixmap (images c ! i) = Some orig"
    and "pm_width orig \<noteq> 0"
    and "pm_height orig \<noteq> 0"
  shows "scale_image env pos i c =
     (let img = images c ! i;
          rect = set_corner a pos (img_rect img);
          new_width = rect_width rect;
          aspect_ratio = round_double (of_int (pm_width orig) / of_int (pm_height orig));
          new_height = py_int (round_double (of_int new_width / aspect_ratio))
      in Inr (c\<lparr>images := (images c)
                [i := img\<lparr>img_pixmap := scaled env orig new_width new_height,
                          img_rect := QRect (qr_x1 rect) (qr_y1 rect) new_width new_height\<rparr>]\<rparr>))"
  using assms
  by (simp add: scale_image_def Let_def bind_def py_truediv_def round_double_eq_0_iff topLeft_def)

text \<open>The scenario of the specification: the imported 400 by 300 picture, its
  bottom-right corner dragged 100 pixels to the right, is 500 by 375.\<close>

theorem scale_image_accepted_witness:
  "0 < length (images grabbed) \<and> anchor_clicked grabbed = Some BottomRight
   \<and> 10 < rect_width (set_corner BottomRight (799, 549) (img_rect (images grabbed ! 0)))
   \<and> 10 < rect_height (set_corner BottomRight (799, 549) (img_rect (images grabbed ! 0)))
   \<and> original_pixmap (images grabbed ! 0) = Some photo
   \<and> pm_width photo = 400 \<and> pm_height photo = 300
   \<and> (case scale_image simple_qt (799, 549) 0 grabbed of
         Inr c' \<Rightarrow> img_rect (images c' ! 0) = QRect 300 250 500 375
                   \<and> rect_width (img_rect (images c' ! 0)) = 500
                   \<and> rect_height (img_rect (images c' ! 0)) = 375
                   \<and> img_pixmap (images c' ! 0) = scaled simple_qt photo 500 375
       | Inl e \<Rightarrow> False)"
proof -
  have h: "0 < length (images grabbed)" "anchor_clicked grabbed = Some BottomRight"
    "10 < rect_width (set_corner BottomRight (799, 549) (img_rect (images grabbed ! 0)))"
    "10 < rect_height (set_corner BottomRight (799, 549) (img_rect (images grabbed ! 0)))"
    "original_pixmap (images grabbed ! 0) = Some photo"
    "pm_width photo \<noteq> 0" "pm_height photo \<noteq> 0"
    by (simp_all add: grabbed_def scale_ready_def with_photo_def photo_def setBottomRight_def
        QRect_def rect_width_def rect_height_def)
  have q: "py_int (round_double (500 / round_double (400 / 300))) = 375" by code_simp
  have sz: "pm_width photo = 400" "pm_height photo = 300" by (simp_all add: photo_def)
  show ?thesis
    using h(1-5) sz scale_image_accepted[OF h, of simple_qt] q
    by (simp add: grabbed_def scale_ready_def with_photo_def setBottomRight_def
        QRect_def rect_width_def rect_height_def Let_def)
qed

section \<open>Checkpoints of an anchor-scale gesture\<close>








lemma snapshot_of_simps [simp]:
  "snapshot_of (c\<lparr>undo_stack := u\<rparr>) = snapshot_of c"
  "snapshot_of (c\<lparr>redo_stack := r\<rparr>) = snapshot_of c"
  "snapshot_of (c\<lparr>anchor_clicked := a\<rparr>) = snapshot_of c"
  "snapshot_of (c\<lparr>last_mouse_position := p\<rparr>) = snapshot_of c"
  by (simp_all add: snapshot_of_def)










text \<open>The 600 by 40 picture, its bottom-right corner dragged to width 14: the
  displayed pixmap gets height 0. Without a mode the release returns; in scale mode
  it raises.\<close>

lemma import_ribbon: "import_image env (Some ribbon) (init_window 800 600) = Inr with_ribbon"
  by (simp add: import_image_def bind_def Let_def save_state_eq update_histogram_def
      has_originals_def init_window_def with_ribbon_def ribbon_def gamma_slider_setValue_def
      slider_bound_def snapshot_of_def)

lemma press_ribbon:
  "mousePressEvent env (left_at (799, 419)) (with_ribbon\<lparr>scale_mode := m\<rparr>) =
     Inr (with_ribbon
           \<lparr>scale_mode := m, selected_image_index := Some 0,
            last_mouse_position := Some (799, 419), anchor_clicked := Some BottomRight,
            undo_stack := undo_stack with_ribbon
                            @ [snapshot_of (with_ribbon\<lparr>selected_image_index := Some 0\<rparr>)],
            redo_stack := []\<rparr>)"
  by (simp add: mousePressEvent_def press_select_anchor_def with_ribbon_def
      init_window_def left_at_def contains_def QRect_def Let_def get_clicked_anchor_def
      topLeft_def topRight_def bottomLeft_def bottomRight_def
      save_state_eq has_originals_def update_histogram_def isNull_def ribbon_def
      snapshot_of_def)

lemma squeeze_ribbon:
  "bind (mousePressEvent env (left_at (799, 419)) (with_ribbon\<lparr>scale_mode := m\<rparr>))
     (mouseMoveEvent env (left_at (213, 419)))
   = Inr ((squeezed env)\<lparr>scale_mode := m\<rparr>)"
proof -
  have q: "py_int (round_double (14 / round_double (600 / 40))) = 0" by code_simp
  have nz: "round_double (600 / 40) \<noteq> 0" by (simp add: round_double_eq_0_iff)
  show ?thesis
    unfolding press_ribbon bind_def sum.case
    using q nz
    by (simp add: mouseMoveEvent_def scale_image_def Let_def bind_def py_truediv_def
        squeezed_def with_ribbon_def init_window_def ribbon_def left_at_def
        setBottomRight_def QRect_def rect_width_def rect_height_def topLeft_def)
qed

lemma release_squeezed:
  "mouseReleaseEvent simple_qt up ((squeezed simple_qt)\<lparr>scale_mode := True\<rparr>) = Inl AttributeError"
  "mouseReleaseEvent simple_qt up ((squeezed simple_qt)\<lparr>scale_mode := False\<rparr>)
     = Inr ((squeezed simple_qt)\<lparr>scale_mode := False, anchor_clicked := None\<rparr>)"
  by (simp_all add: mouseReleaseEvent_def save_state_eq has_originals_def update_histogram_def
      bind_def squeezed_def with_ribbon_def init_window_def simple_qt_def isNull_def)

lemma gesture_one_move:
  "gesture env down [m] up c =
     bind (bind (mousePressEvent env down c) (mouseMoveEvent env m)) (mouseReleaseEvent env up)"
  by (simp add: gesture_def bind_def split: sum.splits)

lemma thin_picture_release_raises:
  "gesture simple_qt (left_at (799, 419)) [left_at (213, 419)] (left_at (213, 419))
     (with_ribbon\<lparr>scale_mode := True\<rparr>) = Inl AttributeError"
  unfolding gesture_one_move squeeze_ribbon
  by (simp add: bind_def release_squeezed(1))

section \<open>Releasing a freehand stroke\<close>

text \<open>The drawing example is a run of the program: \<^verbatim>\<open>toggle_drawing_mode\<close> on the new
  window, then the press and the move.\<close>

lemma toggle_drawing_ready: "toggle_drawing_mode (init_window 800 600) = Inr drawing_ready"
  by (simp add: toggle_drawing_mode_def Let_def bind_def save_state_eq has_originals_def
      update_histogram_def drawing_ready_def init_window_def snapshot_of_def)





lemma snapshot_of_tool [simp]:
  "snapshot_of (c\<lparr>drawing_tool := t\<rparr>) = snapshot_of c"
  by (simp add: snapshot_of_def)

lemma ready_after_painting [simp]:
  "has_originals (c\<lparr>pixmap := p\<rparr>) = has_originals c"
  "has_originals (c\<lparr>drawing_tool := t\<rparr>) = has_originals c"
  "histogram_ready (c\<lparr>pixmap := p\<rparr>) = histogram_ready c"
  "histogram_ready (c\<lparr>drawing_tool := t\<rparr>) = histogram_ready c"
  by (simp_all add: has_originals_def histogram_ready_def split: option.splits)


text \<open>With an image selected and scale mode set as well, the release is taken by the
  scale branch (line 3264): \<^verbatim>\<open>end_drawing\<close> is not called.\<close>

lemma release_taken_by_scale_branch:
  assumes "selected_image_index c \<noteq> None" and "scale_mode c"
    and "has_originals c" and "histogram_ready c"
  shows "mouseReleaseEvent env up c =
     Inr (if anchor_clicked c \<noteq> None
          then c\<lparr>undo_stack := undo_stack c @ [snapshot_of c], redo_stack := [],
                 anchor_clicked := None\<rparr>
          else c\<lparr>anchor_clicked := None\<rparr>)"
  using assms by (simp add: mouseReleaseEvent_def bind_def save_state_ready)


















text \<open>The same stroke after a picture has been selected and both the drawing and the
  scale flag have been set: the release is taken by the scale branch, so the stroke
  is in the overlay only, the background pixmap and the undo stack are as before,
  and the stroke is still in progress.\<close>

lemma reach_drawing_over_photo:
  "bind (bind (bind (mousePressEvent env (left_at (400, 400)) with_photo)
                 (mouseReleaseEvent env (left_at (400, 400))))
           toggle_drawing_mode) toggle_scale_mode
   = Inr drawing_over_photo"
  by (simp add: mousePressEvent_def mouseReleaseEvent_def press_select_anchor_def
      toggle_drawing_mode_def toggle_scale_mode_def bind_def Let_def with_photo_def
      init_window_def left_at_def contains_def QRect_def get_clicked_anchor_def
      topLeft_def topRight_def bottomLeft_def bottomRight_def drawing_over_photo_def
      save_state_eq has_originals_def update_histogram_def isNull_def photo_def
      snapshot_of_def)

lemma map_on_new_canvas:
  assumes "width c = 800" and "height c = 600" and "canvas_x c = 100" and "canvas_y c = 100"
    and "pm_width (pixmap c) = 800" and "pm_height (pixmap c) = 600"
  shows "DrawingTool_map_to_canvas c (110, 110) = Inr (10, 10)"
    and "DrawingTool_map_to_canvas c (110, 200) = Inr (10, 100)"
proof -
  have r: "round_double 1 = 1" "round_double 10 = 10" "round_double 100 = 100"
    by code_simp+
  show "DrawingTool_map_to_canvas c (110, 110) = Inr (10, 10)"
    "DrawingTool_map_to_canvas c (110, 200) = Inr (10, 100)"
    using assms
    by (simp_all add: DrawingTool_map_to_canvas_def Let_def bind_def py_truediv_def r py_int_def)
qed

lemma stroke_over_selected_picture:
  "active_modes drawing_over_photo = [Drawing, Scale]
   \<and> selected_image_index drawing_over_photo = Some 0
   \<and> (case gesture simple_qt (left_at (110, 110)) [left_at (110, 200)] (left_at (110, 200))
              drawing_over_photo of
         Inl e \<Rightarrow> False
       | Inr c' \<Rightarrow>
           pixmap c' = pixmap drawing_over_photo
           \<and> undo_stack c' = undo_stack drawing_over_photo
           \<and> is_drawing (drawing_tool c') = Some True
           \<and> overlay_pixmap c'
               = simple_paint black_pen (DrawLine (10, 10) (10, 100))
                   (QPixmap 800 600 Qt_transparent))"
proof -
  let ?c = drawing_over_photo
  let ?t1 = "(drawing_tool ?c)\<lparr>is_drawing := Some True, dt_last_pos := Some (10, 10)\<rparr>"
  let ?c1 = "?c\<lparr>drawing_tool := ?t1\<rparr>"
  let ?c2 = "?c\<lparr>overlay_pixmap := simple_paint black_pen (DrawLine (10, 10) (10, 100))
                                      (QPixmap 800 600 Qt_transparent),
                 drawing_tool := ?t1\<lparr>dt_last_pos := Some (10, 100)\<rparr>\<rparr>"
  have f: "drawing_mode ?c" "\<not> drag_mode ?c" "scale_mode ?c"
    "selected_image_index ?c = Some 0" "length (images ?c) = 1" "anchor_clicked ?c = None"
    "\<not> crop_mode ?c" "overlay_pixmap ?c = QPixmap 800 600 Qt_transparent"
    "width ?c = 800" "height ?c = 600" "canvas_x ?c = 100" "canvas_y ?c = 100"
    "pm_width (pixmap ?c) = 800" "pm_height (pixmap ?c) = 600"
    by (simp_all add: drawing_over_photo_def with_photo_def init_window_def Let_def)
  have m1: "DrawingTool_map_to_canvas (?c\<lparr>drawing_tool := t\<rparr>) (110, 110) = Inr (10, 10)"
    "DrawingTool_map_to_canvas (?c\<lparr>drawing_tool := t\<rparr>) (110, 200) = Inr (10, 100)" for t
    using f(9-14) by (simp_all add: map_on_new_canvas)
  have p: "mousePressEvent simple_qt (left_at (110, 110)) ?c = Inr ?c1"
    using f(1,2) m1(1)
    by (simp add: mousePressEvent_def DrawingTool_start_drawing_def left_at_def Let_def bind_def)
  have pen: "\<lparr>p_color = dt_pen_color (drawing_tool ?c), p_width = dt_pen_width (drawing_tool ?c),
              p_style = dt_pen_style (drawing_tool ?c),
              p_opacity = dt_pen_opacity (drawing_tool ?c)\<rparr> = black_pen"
    by (simp add: drawing_over_photo_def with_photo_def init_window_def black_pen_def Let_def)
  have mv: "mouseMoveEvent simple_qt (left_at (110, 200)) ?c1 = Inr ?c2"
    using f(1,4,5,6,7,8) m1(2) pen
    by (simp add: mouseMoveEvent_def DrawingTool_continue_drawing_def left_at_def Let_def
        bind_def simple_qt_def)
  have o: "has_originals ?c2" "histogram_ready ?c2"
    by (simp_all add: has_originals_def histogram_ready_def drawing_over_photo_def
        with_photo_def isNull_def photo_def Let_def)
  have rel: "mouseReleaseEvent simple_qt (left_at (110, 200)) ?c2 = Inr (?c2\<lparr>anchor_clicked := None\<rparr>)"
  proof -
    have s: "selected_image_index ?c2 \<noteq> None" "scale_mode ?c2" "anchor_clicked ?c2 = None"
      using f(3,4,6) by simp_all
    show ?thesis
      by (subst release_taken_by_scale_branch[OF s(1,2) o]) (simp only: s(3) simp_thms if_False)
  qed
  have g: "gesture simple_qt (left_at (110, 110)) [left_at (110, 200)] (left_at (110, 200)) ?c
           = Inr (?c2\<lparr>anchor_clicked := None\<rparr>)"
    unfolding gesture_one_move p bind_def sum.case mv rel by (rule refl)
  have am: "active_modes ?c = [Drawing, Scale]"
    by (simp add: active_modes_def drawing_over_photo_def with_photo_def init_window_def Let_def)
  show ?thesis
    unfolding g sum.case using am f(4) by simp
qed

section \<open>Flipping an image\<close>


























text \<open>The imported picture, selected by a click: flipped, and then scaled by its
  corner to 500 by 375, zoomed to 440 by 330, and filtered, each time from the
  original pixmap.\<close>

lemma reach_photo_selected:
  "bind (mousePressEvent env (left_at (400, 400)) with_photo)
     (mouseReleaseEvent env (left_at (400, 400))) = Inr photo_selected"
  by (simp add: mousePressEvent_def mouseReleaseEvent_def press_select_anchor_def
      bind_def Let_def with_photo_def init_window_def left_at_def contains_def QRect_def
      get_clicked_anchor_def topLeft_def topRight_def bottomLeft_def bottomRight_def
      photo_selected_def)








section \<open>Undo followed by redo\<close>

lemma setValue_same:
  "0 \<le> threshold_slider c \<Longrightarrow> threshold_slider c \<le> 255
     \<Longrightarrow> threshold_slider_setValue env (threshold_slider c) c = Inr c"
  "0 \<le> sharp_slider c \<Longrightarrow> sharp_slider c \<le> 20
     \<Longrightarrow> sharp_slider_setValue env (sharp_slider c) c = Inr c"
  "1 \<le> gamma_slider c \<Longrightarrow> gamma_slider c \<le> 50
     \<Longrightarrow> gamma_slider_setValue env (gamma_slider c) c = Inr c"
  by (simp_all add: threshold_slider_setValue_def sharp_slider_setValue_def
      gamma_slider_setValue_def slider_bound_def Let_def)

text \<open>When restoring the sliders emits no signal, undo followed by redo gives back
  the whole window state, stacks included.\<close>

lemma restore_snapshot_of:
  "snapshot_of (restore s c)
     = s\<lparr>threshold_value := threshold_slider c, sharp_value := sharp_slider c,
          gamma_value := gamma_slider c\<rparr>"
  by (simp add: snapshot_of_def restore_def)

lemma undo_redo_identity_without_signal:
  assumes ne: "undo_stack c \<noteq> []"
    and sl: "threshold_value (last (undo_stack c)) = threshold_slider c"
      "sharp_value (last (undo_stack c)) = sharp_slider c"
      "gamma_value (last (undo_stack c)) = gamma_slider c"
    and rg: "0 \<le> threshold_slider c" "threshold_slider c \<le> 255"
      "0 \<le> sharp_slider c" "sharp_slider c \<le> 20"
      "1 \<le> gamma_slider c" "gamma_slider c \<le> 50"
    and ho: "has_originals c" and hr: "histogram_ready c"
    and hos: "list_all (\<lambda>img. original_pixmap img \<noteq> None) (s_images (last (undo_stack c)))"
    and hrs: "histogram_ready (restore (last (undo_stack c)) c)"
  shows "bind (undo_action env c) (redo_action env) = Inr c"
proof -
  let ?s = "last (undo_stack c)"
  let ?u = "restore ?s (c\<lparr>redo_stack := redo_stack c @ [snapshot_of c],
                          undo_stack := butlast (undo_stack c)\<rparr>)"
  have su: "threshold_slider ?u = threshold_slider c" "sharp_slider ?u = sharp_slider c"
    "gamma_slider ?u = gamma_slider c"
    by (simp_all add: restore_def)
  have vu: "histogram_ready ?u"
    using hrs by (simp add: histogram_ready_def restore_def split: option.splits)
  have ou: "has_originals ?u"
    using hos by (simp add: has_originals_def restore_def)
  have t1: "threshold_slider_setValue env (threshold_value ?s) ?u = Inr ?u"
    using setValue_same(1)[of ?u env] rg su sl by simp
  have t2: "sharp_slider_setValue env (sharp_value ?s) ?u = Inr ?u"
    using setValue_same(2)[of ?u env] rg su sl by simp
  have t3: "gamma_slider_setValue env (gamma_value ?s) ?u = Inr ?u"
    using setValue_same(3)[of ?u env] rg su sl by simp
  have undo: "undo_action env c = Inr ?u"
    using ne ho
    by (simp add: undo_action_def current_state_eq Let_def t1 t2 t3 bind_def
        update_histogram_ready[OF vu])
  have cu: "snapshot_of ?u = ?s"
    unfolding restore_snapshot_of by (rule snapshot.equality) (simp_all add: sl)
  let ?r = "restore (snapshot_of c)
              (?u\<lparr>undo_stack := undo_stack ?u @ [snapshot_of ?u],
                   redo_stack := butlast (redo_stack ?u)\<rparr>)"
  have rc: "?r = c"
    using ne cu by (simp add: restore_def snapshot_of_def)
  have r1: "threshold_slider_setValue env (threshold_slider c) c = Inr c"
    "sharp_slider_setValue env (sharp_slider c) c = Inr c"
    "gamma_slider_setValue env (gamma_slider c) c = Inr c"
    using setValue_same[of c env] rg by simp_all
  have redo: "redo_action env ?u = Inr c"
  proof -
    have ne': "redo_stack ?u \<noteq> []" by (simp add: restore_def)
    have lst: "last (redo_stack ?u) = snapshot_of c" by (simp add: restore_def)
    have "redo_action env ?u =
        bind (threshold_slider_setValue env (threshold_slider c) ?r) (\<lambda>c4.
        bind (sharp_slider_setValue env (sharp_slider c) c4) (\<lambda>c5.
        bind (gamma_slider_setValue env (gamma_slider c) c5) (\<lambda>c6.
        update_histogram c6)))"
      unfolding redo_action_def Let_def current_state_eq using ne' ou
      by (simp add: restore_def snapshot_of_def bind_def)
    then show ?thesis
      unfolding rc by (simp add: r1 bind_def update_histogram_ready[OF hr])
  qed
  show ?thesis by (simp add: undo redo bind_def)
qed


text \<open>
  Claim C1, evaluated. The imported picture is selected by a click, flipped (a
  checkpoint with threshold 127), and the threshold slider is moved to 128 (a second
  checkpoint); one undo gives the window \<open>y\<close>, whose undo stack is not empty and whose
  slider shows 128. Now undo and then redo: the undo restores the slider to 127
  through \<^verbatim>\<open>setValue\<close>, the value changes, \<^verbatim>\<open>valueChanged\<close> runs
  \<^verbatim>\<open>update_thresholding_image\<close>, and that handler calls \<^verbatim>\<open>save_state\<close>, which clears the
  redo stack. The redo that follows finds the redo stack empty and does nothing: the
  slider stays at 127 and the document is not the one before the undo.
\<close>

lemmas hist_defs = undo_action_def redo_action_def restore_def threshold_slider_setValue_def
  sharp_slider_setValue_def gamma_slider_setValue_def slider_bound_def
  update_thresholding_image_def update_sharpening_image_def update_powerlaw_image_def
  save_state_def update_histogram_def bind_def Let_def

theorem undo_redo_not_restored:
  "(case bind (mousePressEvent simple_qt (left_at (400, 400)) with_photo) (\<lambda>c1.
         bind (flip_horizontal simple_qt c1) (\<lambda>c2.
         bind (threshold_slider_setValue simple_qt 128 c2) (undo_action simple_qt))) of
      Inl e \<Rightarrow> False
    | Inr y \<Rightarrow>
        undo_stack y \<noteq> [] \<and> threshold_slider y = 128 \<and> length (redo_stack y) = 1
        \<and> (case bind (undo_action simple_qt y) (redo_action simple_qt) of
              Inl e \<Rightarrow> False
            | Inr z \<Rightarrow> threshold_slider z = 127 \<and> redo_stack z = []
                       \<and> current_state z \<noteq> current_state y))"
  by (simp add: hist_defs mousePressEvent_def press_select_anchor_def flip_horizontal_def
      with_photo_def init_window_def left_at_def contains_def QRect_def get_clicked_anchor_def
      topLeft_def topRight_def bottomLeft_def bottomRight_def current_state_def
      copy_dict_def isNull_def photo_def resize_pixmap_def pixmap_size_def simple_qt_def)



section \<open>Stored snapshots are independent of the live document\<close>

lemma lookup_append: "a < length st \<Longrightarrow> lookup (st @ ext) a = lookup st a"
  by (simp add: lookup_def nth_append)

lemma lookup_update: "lookup (st[a := v]) b = (if b = a \<and> a < length st then Some v else lookup st b)"
  by (simp add: lookup_def)

lemma lookup_Some_less: "lookup st a = Some v \<Longrightarrow> a < length st"
  by (simp add: lookup_def split: if_splits)

lemma lookup_fresh: "lookup (st @ [v]) (length st) = Some v"
  by (simp add: lookup_def)

text \<open>A document's footprint and value depend on the cells of the footprint only.\<close>

lemma frame:
  assumes "\<And>a. a \<in> footprint st d \<Longrightarrow> lookup st' a = lookup st a"
  shows "footprint st' d = footprint st d \<and> view st' d = view st d"
proof -
  have roots: "lookup st' (d_images d) = lookup st (d_images d)"
    "lookup st' (d_pixmap d) = lookup st (d_pixmap d)"
    "lookup st' (d_overlay d) = lookup st (d_overlay d)"
    "lookup st' (d_text d) = lookup st (d_text d)"
    using assms by (simp_all add: footprint_def)
  show ?thesis
  proof (cases "\<exists>ds. lookup st (d_images d) = Some (ImgList ds)")
    case False
    then have "footprint st' d = footprint st d"
      using roots by (auto simp add: footprint_def split: option.splits obj.splits)
    moreover have "view st' d = view st d"
      using False roots by (auto simp add: view_def split: option.splits obj.splits)
    ultimately show ?thesis by simp
  next
    case True
    then obtain ds where ds: "lookup st (d_images d) = Some (ImgList ds)" by blast
    have el: "lookup st' a = lookup st a" if "a \<in> set ds" for a
      using assms[of a] that ds by (simp add: footprint_def)
    have refs: "image_refs st' a = image_refs st a" if "a \<in> set ds" for a
      using el[OF that] by (simp add: image_refs_def)
    have inner: "lookup st' b = lookup st b" if "a \<in> set ds" "b \<in> image_refs st a" for a b
      using assms[of b] that ds by (auto simp add: footprint_def)
    have vi: "view_image st' a = view_image st a" if "a \<in> set ds" for a
    proof (cases "lookup st a")
      case None
      then show ?thesis using el[OF that] by (simp add: view_image_def)
    next
      case (Some v)
      note lv = Some
      show ?thesis
      proof (cases v)
        case (ImgDict p oa x y r)
        show ?thesis
        proof (cases oa)
          case None
          then show ?thesis using el[OF that] lv ImgDict by (simp add: view_image_def)
        next
          case (Some orig)
          have "p \<in> image_refs st a" "orig \<in> image_refs st a" "r \<in> image_refs st a"
            using lv ImgDict Some by (simp_all add: image_refs_def)
          then have "lookup st' p = lookup st p" "lookup st' orig = lookup st orig"
            "lookup st' r = lookup st r"
            using inner[OF that] by simp_all
          then show ?thesis
            using el[OF that] lv ImgDict Some
            by (simp add: view_image_def split: option.splits obj.splits)
        qed
      qed (use el[OF that] lv in \<open>simp_all add: view_image_def\<close>)
    qed
    have "footprint st' d = footprint st d"
      using roots ds refs by (simp add: footprint_def)
    moreover have m: "map (view_image st') ds = map (view_image st) ds"
      using vi by simp
    have "view st' d = view st d"
      by (simp add: view_def roots ds m cong: option.case_cong obj.case_cong)
    ultimately show ?thesis by simp
  qed
qed

lemma frame_append:
  assumes "bounded st d"
  shows "footprint (st @ ext) d = footprint st d" "view (st @ ext) d = view st d"
    "bounded (st @ ext) d"
proof -
  have "lookup (st @ ext) a = lookup st a" if "a \<in> footprint st d" for a
    using that assms by (auto simp add: bounded_def intro: lookup_append)
  from frame[of st d "st @ ext", OF this]
  show "footprint (st @ ext) d = footprint st d" "view (st @ ext) d = view st d" by simp_all
  then show "bounded (st @ ext) d" using assms by (auto simp add: bounded_def)
qed

lemma frame_update:
  assumes "a \<notin> footprint st d"
  shows "footprint (st[a := v]) d = footprint st d" "view (st[a := v]) d = view st d"
    "bounded st d \<Longrightarrow> bounded (st[a := v]) d"
proof -
  have "lookup (st[a := v]) b = lookup st b" if "b \<in> footprint st d" for b
    using that assms by (auto simp add: lookup_update)
  from frame[of st d "st[a := v]", OF this]
  show "footprint (st[a := v]) d = footprint st d" "view (st[a := v]) d = view st d"
    by simp_all
  then show "bounded st d \<Longrightarrow> bounded (st[a := v]) d" by (simp add: bounded_def)
qed

text \<open>The footprint does not depend on the selection or on the slider values.\<close>

lemma footprint_roots:
  assumes "d_images d' = d_images d" "d_pixmap d' = d_pixmap d" "d_overlay d' = d_overlay d"
    "d_text d' = d_text d"
  shows "footprint st d' = footprint st d" "bounded st d' = bounded st d"
  using assms by (simp_all add: footprint_def bounded_def)

lemma copy_pixmap_Inr:
  assumes "copy_pixmap a st = Inr (n, st')"
  shows "\<exists>p. lookup st a = Some (Pixmap p) \<and> n = length st \<and> st' = st @ [Pixmap p]"
  using assms by (auto simp add: copy_pixmap_def alloc_def split: option.splits obj.splits)

lemma copy_qrect_Inr:
  assumes "copy_qrect a st = Inr (n, st')"
  shows "\<exists>r. lookup st a = Some (Rect r) \<and> n = length st \<and> st' = st @ [Rect r]"
  using assms by (auto simp add: copy_qrect_def alloc_def split: option.splits obj.splits)

text \<open>A copied image is four new objects at the end of the store.\<close>

lemma copy_image_Inr:
  assumes "copy_image d st = Inr (n, st')"
  shows "\<exists>p orig x y r pp oo rr.
           lookup st d = Some (ImgDict p (Some orig) x y r)
           \<and> lookup st p = Some (Pixmap pp)
           \<and> lookup (st @ [Pixmap pp]) orig = Some (Pixmap oo)
           \<and> lookup (st @ [Pixmap pp, Pixmap oo]) r = Some (Rect rr)
           \<and> st' = st @ [Pixmap pp, Pixmap oo, Rect rr,
                          ImgDict (length st) (Some (length st + 1)) x y (length st + 2)]
           \<and> n = length st + 3"
proof -
  from assms obtain p oa x y r where d0: "lookup st d = Some (ImgDict p oa x y r)"
    by (auto simp add: copy_image_def split: option.splits obj.splits)
  from assms d0 obtain p' st1 where c1: "copy_pixmap p st = Inr (p', st1)"
    by (cases "copy_pixmap p st") (auto simp add: copy_image_def bind_def)
  from assms d0 c1 obtain orig where oa: "oa = Some orig"
    by (cases oa) (auto simp add: copy_image_def bind_def)
  from d0 oa have d: "lookup st d = Some (ImgDict p (Some orig) x y r)" by simp
  from assms d c1 obtain o' st2 where c2: "copy_pixmap orig st1 = Inr (o', st2)"
    by (cases "copy_pixmap orig st1") (auto simp add: copy_image_def bind_def)
  from assms d c1 c2 obtain r' st3 where c3: "copy_qrect r st2 = Inr (r', st3)"
    by (cases "copy_qrect r st2") (auto simp add: copy_image_def bind_def)
  from assms d c1 c2 c3 have fin: "(n, st') = alloc (ImgDict p' (Some o') x y r') st3"
    by (simp add: copy_image_def bind_def)
  from copy_pixmap_Inr[OF c1] obtain pp where
    1: "lookup st p = Some (Pixmap pp)" "p' = length st" "st1 = st @ [Pixmap pp]" by blast
  from copy_pixmap_Inr[OF c2] obtain oo where
    2: "lookup st1 orig = Some (Pixmap oo)" "o' = length st1" "st2 = st1 @ [Pixmap oo]" by blast
  from copy_qrect_Inr[OF c3] obtain rr where
    3: "lookup st2 r = Some (Rect rr)" "r' = length st2" "st3 = st2 @ [Rect rr]" by blast
  show ?thesis
    using d 1 2 3 fin by (simp add: alloc_def)
qed

lemma image_refs_append: "a < length st \<Longrightarrow> image_refs (st @ ext) a = image_refs st a"
  by (simp add: image_refs_def lookup_append)

lemma copy_image_fresh:
  assumes "copy_image d st = Inr (n, st')"
  shows "\<exists>ext. st' = st @ ext" "length st \<le> n" "n < length st'"
    "image_refs st' n \<subseteq> {length st..<length st'}"
proof -
  from copy_image_Inr[OF assms] obtain p orig x y r pp oo rr where
    e: "st' = st @ [Pixmap pp, Pixmap oo, Rect rr,
                    ImgDict (length st) (Some (length st + 1)) x y (length st + 2)]"
    and n: "n = length st + 3" by blast
  show "\<exists>ext. st' = st @ ext" using e by blast
  show "length st \<le> n" "n < length st'" using e n by simp_all
  have "lookup st' n = Some (ImgDict (length st) (Some (length st + 1)) x y (length st + 2))"
    using e n by (simp add: lookup_def nth_append)
  then show "image_refs st' n \<subseteq> {length st..<length st'}"
    using e by (simp add: image_refs_def)
qed

lemma copy_images_fresh:
  assumes "copy_images ds st = Inr (ds', st')"
  shows "(\<exists>ext. st' = st @ ext)
         \<and> (\<forall>n \<in> set ds'. length st \<le> n \<and> n < length st'
                \<and> image_refs st' n \<subseteq> {length st..<length st'})"
  using assms
proof (induction ds arbitrary: st ds' st')
  case Nil
  then show ?case by simp
next
  case (Cons d ds)
  from Cons.prems obtain d1 st1 where c1: "copy_image d st = Inr (d1, st1)"
    by (cases "copy_image d st") (auto simp add: bind_def)
  from Cons.prems c1 obtain ds2 st2 where c2: "copy_images ds st1 = Inr (ds2, st2)"
    by (cases "copy_images ds st1") (auto simp add: bind_def)
  from Cons.prems c1 c2 have r: "ds' = d1 # ds2" "st' = st2"
    by (simp_all add: bind_def)
  from copy_image_fresh[OF c1] obtain e1 where
    f1: "st1 = st @ e1" "length st \<le> d1" "d1 < length st1"
      "image_refs st1 d1 \<subseteq> {length st..<length st1}" by blast
  from Cons.IH[OF c2] obtain e2 where
    f2: "st2 = st1 @ e2"
      "\<forall>n \<in> set ds2. length st1 \<le> n \<and> n < length st2
          \<and> image_refs st2 n \<subseteq> {length st1..<length st2}" by blast
  have "image_refs st2 d1 = image_refs st1 d1"
    using f1(3) f2(1) by (simp add: image_refs_append)
  then have d1: "image_refs st2 d1 \<subseteq> {length st..<length st2}"
    using f1(4) f2(1) by auto
  have le: "length st \<le> length st1" using f1(1) by simp
  have rest: "\<forall>n \<in> set ds2. length st \<le> n \<and> n < length st2
          \<and> image_refs st2 n \<subseteq> {length st..<length st2}"
    using f2(2) le by fastforce
  show ?case
    using r f1 f2(1) d1 rest by auto
qed

text \<open>A snapshot is made of new objects only: its footprint lies beyond the old end
  of the store, and the store has only grown.\<close>

lemma h_current_state_fresh:
  assumes "h_current_state d st = Inr (s, st')"
  shows "(\<exists>ext. st' = st @ ext)
         \<and> footprint st' s \<subseteq> {length st..<length st'}
         \<and> d_selected s = d_selected d \<and> d_threshold s = d_threshold d
         \<and> d_sharp s = d_sharp d \<and> d_gamma s = d_gamma d"
proof -
  from assms obtain ds where ds: "lookup st (d_images d) = Some (ImgList ds)"
    by (auto simp add: h_current_state_def split: option.splits obj.splits)
  from assms ds obtain ds' st1 where c1: "copy_images ds st = Inr (ds', st1)"
    by (cases "copy_images ds st") (auto simp add: h_current_state_def bind_def)
  define st2 where "st2 = st1 @ [ImgList ds']"
  from assms ds c1 obtain p' st3 where c2: "copy_pixmap (d_pixmap d) st2 = Inr (p', st3)"
    by (cases "copy_pixmap (d_pixmap d) st2")
      (auto simp add: h_current_state_def bind_def alloc_def st2_def)
  from assms ds c1 c2 obtain o' st4 where c3: "copy_pixmap (d_overlay d) st3 = Inr (o', st4)"
    by (cases "copy_pixmap (d_overlay d) st3")
      (auto simp add: h_current_state_def bind_def alloc_def st2_def)
  from assms ds c1 c2 c3 obtain ts where ts: "lookup st4 (d_text d) = Some (TextList ts)"
    by (auto simp add: h_current_state_def bind_def alloc_def st2_def
        split: option.splits obj.splits)
  from assms ds c1 c2 c3 ts have res:
    "s = d\<lparr>d_images := length st1, d_pixmap := p', d_overlay := o', d_text := length st4\<rparr>"
    "st' = st4 @ [TextList ts]"
    by (simp_all add: h_current_state_def bind_def alloc_def st2_def)
  from copy_images_fresh[OF c1] obtain e1 where
    f1: "st1 = st @ e1"
      "\<forall>n \<in> set ds'. length st \<le> n \<and> n < length st1
          \<and> image_refs st1 n \<subseteq> {length st..<length st1}" by blast
  from copy_pixmap_Inr[OF c2] obtain pp where
    f2: "p' = length st2" "st3 = st2 @ [Pixmap pp]" by blast
  from copy_pixmap_Inr[OF c3] obtain oo where
    f3: "o' = length st3" "st4 = st3 @ [Pixmap oo]" by blast
  have st': "st' = st1 @ [ImgList ds', Pixmap pp, Pixmap oo, TextList ts]"
    using res(2) f2 f3 by (simp add: st2_def)
  have il: "lookup st' (length st1) = Some (ImgList ds')"
    by (simp add: st' lookup_def nth_append)
  have refs: "image_refs st' n \<subseteq> {length st..<length st'}" if "n \<in> set ds'" for n
  proof -
    have "n < length st1" using f1(2) that by blast
    then have "image_refs st' n = image_refs st1 n"
      by (simp add: st' image_refs_append)
    then show ?thesis using f1(2) that st' by fastforce
  qed
  have els: "n \<in> {length st..<length st'}" if "n \<in> set ds'" for n
    using f1(2) that st' by fastforce
  have fps: "footprint st' s =
      {length st1, p', o', length st4} \<union> (set ds' \<union> (\<Union>a \<in> set ds'. image_refs st' a))"
    by (simp add: footprint_def res(1) il)
  have len: "length st \<le> length st1" "length st' = length st1 + 4" "p' = length st1 + 1"
    "o' = length st1 + 2" "length st4 = length st1 + 3"
    using f1(1) f2 f3 st' by (simp_all add: st2_def)
  have fp: "footprint st' s \<subseteq> {length st..<length st'}"
  proof
    fix a assume "a \<in> footprint st' s"
    then consider "a \<in> {length st1, p', o', length st4}" | "a \<in> set ds'"
      | n where "n \<in> set ds'" "a \<in> image_refs st' n"
      unfolding fps by blast
    then show "a \<in> {length st..<length st'}"
    proof cases
      case 1
      then show ?thesis using len by auto
    next
      case 2
      then show ?thesis by (rule els)
    next
      case 3
      then show ?thesis using refs by blast
    qed
  qed
  have "\<exists>ext. st' = st @ ext" using f1(1) st' by simp
  then show ?thesis
    using fp res(1) by simp
qed

lemma footprint_nonempty: "d_images d \<in> footprint st d"
  by (simp add: footprint_def)

lemma fresh_disjoint:
  fixes n :: nat
  assumes "A \<subseteq> {n..<m}" and "B \<subseteq> {..<n}"
  shows "A \<inter> B = {}"
proof (rule ccontr)
  assume "A \<inter> B \<noteq> {}"
  then obtain x where "x \<in> A" "x \<in> B" by blast
  then have "n \<le> x" "x < n" using assms by auto
  then show False by simp
qed

lemma sep_subset:
  assumes "sep st lv snaps" and "set snaps' \<subseteq> set snaps" and "distinct snaps'"
  shows "sep st lv snaps'"
  using assms unfolding sep_def by blast

text \<open>Pushing a copy of the live document keeps the separation and the values of the
  snapshots that were stored before.\<close>

lemma sep_push:
  assumes "sep st lv snaps" and "h_current_state lv st = Inr (s, st')"
  shows "sep st' lv (s # snaps)" and "\<forall>t \<in> set snaps. view st' t = view st t"
    and "\<forall>t \<in> set snaps. footprint st' t = footprint st t"
proof -
  from h_current_state_fresh[OF assms(2)] obtain ext where
    e: "st' = st @ ext" and fp: "footprint st' s \<subseteq> {length st..<length st'}" by blast
  have blv: "bounded st lv" using assms(1) by (simp add: sep_def)
  have bs: "bounded st t" if "t \<in> set snaps" for t using assms(1) that by (simp add: sep_def)
  note lv = frame_append[OF blv, of ext, folded e]
  have old: "footprint st' t = footprint st t" "view st' t = view st t" "bounded st' t"
    if "t \<in> set snaps" for t
    using frame_append[OF bs[OF that], of ext] by (simp_all add: e)
  show "\<forall>t \<in> set snaps. view st' t = view st t" using old by blast
  show "\<forall>t \<in> set snaps. footprint st' t = footprint st t" using old by blast
  have fresh_lv: "footprint st' s \<inter> footprint st' lv = {}"
    using fresh_disjoint[OF fp] lv(1) blv by (simp add: bounded_def)
  have fresh_old: "footprint st' s \<inter> footprint st' t = {}" if "t \<in> set snaps" for t
    using fresh_disjoint[OF fp] old(1)[OF that] bs[OF that] by (simp add: bounded_def)
  have notin: "s \<notin> set snaps"
  proof
    assume "s \<in> set snaps"
    from fresh_old[OF this] footprint_nonempty[of s st'] show False by auto
  qed
  have bnew: "bounded st' s" using fp by (auto simp add: bounded_def)
  show "sep st' lv (s # snaps)"
    unfolding sep_def
  proof (intro conjI ballI impI)
    show "bounded st' lv" by (rule lv(3))
    show "distinct (s # snaps)" using notin assms(1) by (simp add: sep_def)
    fix a assume a: "a \<in> set (s # snaps)"
    show "bounded st' a" using a bnew old(3) by auto
    show "footprint st' a \<inter> footprint st' lv = {}"
    proof (cases "a = s")
      case True then show ?thesis using fresh_lv by simp
    next
      case False
      then have "a \<in> set snaps" using a by simp
      then show ?thesis using old(1) lv(1) assms(1) by (simp add: sep_def)
    qed
    fix b assume b: "b \<in> set (s # snaps)" and ne: "a \<noteq> b"
    show "footprint st' a \<inter> footprint st' b = {}"
    proof (cases "a = s")
      case True
      then have "b \<in> set snaps" using b ne by auto
      then show ?thesis using fresh_old True by simp
    next
      case False
      then have as: "a \<in> set snaps" using a by simp
      show ?thesis
      proof (cases "b = s")
        case True
        then show ?thesis using fresh_old[OF as] by auto
      next
        case False
        then have "b \<in> set snaps" using b by simp
        then show ?thesis using as ne old(1) assms(1) by (simp add: sep_def)
      qed
    qed
  qed
qed

text \<open>When the window takes over the objects of a stored snapshot, that snapshot
  leaves the stacks, and the others stay separate from the new live document.\<close>

lemma sep_take_over:
  assumes "sep st lv snaps" and "s \<in> set snaps"
    and "d_images lv' = d_images s" and "d_pixmap lv' = d_pixmap s"
    and "d_overlay lv' = d_overlay s" and "d_text lv' = d_text s"
    and "set snaps' \<subseteq> set snaps - {s}" and "distinct snaps'"
  shows "sep st lv' snaps'"
proof -
  have fp: "footprint st lv' = footprint st s" "bounded st lv' = bounded st s"
    using footprint_roots[OF assms(3-6)] by simp_all
  show ?thesis
    unfolding sep_def fp
    using assms(1,2,7,8) unfolding sep_def by (auto; blast)
qed

lemma sep_same_roots:
  assumes "sep st lv snaps"
    and "d_images lv' = d_images lv" and "d_pixmap lv' = d_pixmap lv"
    and "d_overlay lv' = d_overlay lv" and "d_text lv' = d_text lv"
  shows "sep st lv' snaps"
  using assms(1) footprint_roots[OF assms(2-5)] by (simp add: sep_def)

text \<open>A change of the live document: cells outside the live footprint keep their
  content, the store does not shrink, and the new live footprint is made of old live
  addresses and new addresses.\<close>

lemma sep_live_change:
  assumes s: "sep st lv snaps"
    and agree: "\<And>a. a < length st \<Longrightarrow> a \<notin> footprint st lv \<Longrightarrow> lookup st' a = lookup st a"
    and grow: "length st \<le> length st'"
    and newfp: "footprint st' lv' \<subseteq> footprint st lv \<union> {length st..<length st'}"
  shows "sep st' lv' snaps" and "\<forall>t \<in> set snaps. view st' t = view st t"
proof -
  have blv: "bounded st lv" using s by (simp add: sep_def)
  have old: "footprint st' t = footprint st t \<and> view st' t = view st t"
    if t: "t \<in> set snaps" for t
  proof (rule frame)
    fix a assume a: "a \<in> footprint st t"
    have "a < length st" using s t a by (auto simp add: sep_def bounded_def)
    moreover have "a \<notin> footprint st lv" using s t a by (auto simp add: sep_def)
    ultimately show "lookup st' a = lookup st a" by (rule agree)
  qed
  show "\<forall>t \<in> set snaps. view st' t = view st t" using old by blast
  have bt: "bounded st' t" if t: "t \<in> set snaps" for t
  proof -
    have "footprint st t \<subseteq> {..<length st}" using s t by (simp add: sep_def bounded_def)
    then have "footprint st t \<subseteq> {..<length st'}" using grow by auto
    then show ?thesis using old[OF t] by (simp add: bounded_def)
  qed
  have blv': "bounded st' lv'"
  proof -
    have "footprint st lv \<subseteq> {..<length st'}" using blv grow by (auto simp add: bounded_def)
    moreover have "{length st..<length st'} \<subseteq> {..<length st'}" by auto
    ultimately show ?thesis using newfp unfolding bounded_def by blast
  qed
  have dis: "footprint st' t \<inter> footprint st' lv' = {}" if t: "t \<in> set snaps" for t
  proof -
    have 1: "footprint st t \<inter> footprint st lv = {}" using s t by (simp add: sep_def)
    have 2: "footprint st t \<subseteq> {..<length st}" using s t by (simp add: sep_def bounded_def)
    have 3: "{length st..<length st'} \<inter> footprint st t = {}"
      by (rule fresh_disjoint[OF subset_refl 2])
    show ?thesis using old[OF t] newfp 1 3 by auto
  qed
  show "sep st' lv' snaps"
    unfolding sep_def
    using blv' bt dis old s by (auto simp add: sep_def)
qed

lemma image_refs_update_other: "n \<noteq> a \<Longrightarrow> image_refs (st[a := v]) n = image_refs st n"
  by (simp add: image_refs_def lookup_update)

lemma image_refs_plain: "lookup st n = Some v \<Longrightarrow> plain v \<Longrightarrow> image_refs st n = {}"
  by (auto simp add: image_refs_def plain_def split: obj.splits)

text \<open>Painting on a pixmap, moving a rectangle or extending the text list changes no
  footprint.\<close>

lemma footprint_plain_update:
  assumes "lookup st a = Some old" and "plain old" and "plain v"
  shows "footprint (st[a := v]) d = footprint st d"
proof -
  have a: "a < length st" using assms(1) by (rule lookup_Some_less)
  have la: "lookup (st[a := v]) a = Some v" using a by (simp add: lookup_update)
  have refs: "image_refs (st[a := v]) n = image_refs st n" for n
  proof (cases "n = a")
    case True
    then show ?thesis
      using image_refs_plain[OF assms(1,2)] image_refs_plain[OF la assms(3)] by simp
  next
    case False
    then show ?thesis by (rule image_refs_update_other)
  qed
  show ?thesis
  proof (cases "d_images d = a")
    case True
    then show ?thesis
      using assms la by (auto simp add: footprint_def plain_def split: obj.splits)
  next
    case False
    then have "lookup (st[a := v]) (d_images d) = lookup st (d_images d)"
      by (simp add: lookup_update)
    then show ?thesis
      by (simp add: footprint_def refs cong: option.case_cong obj.case_cong)
  qed
qed

text \<open>Assigning to an item of an image dictionary adds at most the assigned objects
  to a footprint.\<close>

lemma footprint_dict_update:
  assumes "lookup st a = Some (ImgDict p orig x y r)"
  shows "footprint (st[a := ImgDict p' orig' x' y' r']) d
         \<subseteq> footprint st d \<union> ({p', r'} \<union> set_option orig')"
proof -
  let ?st = "st[a := ImgDict p' orig' x' y' r']"
  have a: "a < length st" using assms by (rule lookup_Some_less)
  have la: "lookup ?st a = Some (ImgDict p' orig' x' y' r')" using a by (simp add: lookup_update)
  have refs: "image_refs ?st n \<subseteq> image_refs st n \<union> ({p', r'} \<union> set_option orig')" for n
  proof (cases "n = a")
    case True
    then show ?thesis using la by (auto simp add: image_refs_def)
  next
    case False
    then show ?thesis by (auto simp add: image_refs_update_other)
  qed
  show ?thesis
  proof (cases "d_images d = a")
    case True
    then show ?thesis using assms la by (simp add: footprint_def)
  next
    case False
    then have l: "lookup ?st (d_images d) = lookup st (d_images d)"
      by (simp add: lookup_update)
    show ?thesis
    proof (cases "\<exists>ds. lookup st (d_images d) = Some (ImgList ds)")
      case True
      then obtain ds where ds: "lookup st (d_images d) = Some (ImgList ds)" by blast
      show ?thesis
        using refs by (simp add: footprint_def l ds) blast
    next
      case False
      then show ?thesis
        by (auto simp add: footprint_def l split: option.splits obj.splits)
    qed
  qed
qed

text \<open>Replacing the content of an image list.\<close>

lemma footprint_list_update:
  assumes "lookup st a = Some (ImgList ds)"
  shows "footprint (st[a := ImgList ds']) d
         \<subseteq> footprint st d \<union> set ds' \<union> (\<Union>n \<in> set ds'. image_refs st n)"
proof -
  let ?st = "st[a := ImgList ds']"
  have a: "a < length st" using assms by (rule lookup_Some_less)
  have la: "lookup ?st a = Some (ImgList ds')" using a by (simp add: lookup_update)
  have refs: "image_refs ?st n \<subseteq> image_refs st n" for n
  proof (cases "n = a")
    case True
    then show ?thesis using la by (simp add: image_refs_def)
  next
    case False
    then show ?thesis by (simp add: image_refs_update_other)
  qed
  show ?thesis
  proof (cases "d_images d = a")
    case True
    then show ?thesis using refs la by (simp add: footprint_def) blast
  next
    case False
    then have l: "lookup ?st (d_images d) = lookup st (d_images d)"
      by (simp add: lookup_update)
    show ?thesis
    proof (cases "\<exists>es. lookup st (d_images d) = Some (ImgList es)")
      case True
      then obtain es where es: "lookup st (d_images d) = Some (ImgList es)" by blast
      show ?thesis
        using refs by (simp add: footprint_def l es) blast
    next
      case False
      then show ?thesis
        by (auto simp add: footprint_def l split: option.splits obj.splits)
    qed
  qed
qed

lemma in_footprint:
  assumes "lookup st (d_images d) = Some (ImgList ds)" and "n \<in> set ds"
  shows "n \<in> footprint st d" and "image_refs st n \<subseteq> footprint st d"
  using assms by (auto simp add: footprint_def)

lemma roots_in_footprint:
  "d_images d \<in> footprint st d" "d_pixmap d \<in> footprint st d"
  "d_overlay d \<in> footprint st d" "d_text d \<in> footprint st d"
  by (simp_all add: footprint_def)

lemma live_image_Inr:
  assumes "live_image i w = Inr (d, p, orig, x, y, r)"
  shows "\<exists>ds. lookup (store w) (d_images (live w)) = Some (ImgList ds) \<and> i < length ds
              \<and> d = ds ! i \<and> lookup (store w) d = Some (ImgDict p orig x y r)"
  using assms
  by (auto simp add: live_image_def split: option.splits obj.splits if_splits)

lemma live_image_footprint:
  assumes "live_image i w = Inr (d, p, orig, x, y, r)"
  shows "d \<in> footprint (store w) (live w)" "p \<in> footprint (store w) (live w)"
    "set_option orig \<subseteq> footprint (store w) (live w)" "r \<in> footprint (store w) (live w)"
    "lookup (store w) d = Some (ImgDict p orig x y r)"
proof -
  from live_image_Inr[OF assms] obtain ds where
    ds: "lookup (store w) (d_images (live w)) = Some (ImgList ds)" "i < length ds"
      "d = ds ! i" "lookup (store w) d = Some (ImgDict p orig x y r)" by blast
  have m: "d \<in> set ds" using ds(2,3) by simp
  show "d \<in> footprint (store w) (live w)" using in_footprint(1)[OF ds(1) m] .
  have "image_refs (store w) d = {p, r} \<union> set_option orig"
    using ds(4) by (simp add: image_refs_def)
  then show "p \<in> footprint (store w) (live w)"
    "set_option orig \<subseteq> footprint (store w) (live w)"
    "r \<in> footprint (store w) (live w)"
    using in_footprint(2)[OF ds(1) m] by auto
  show "lookup (store w) d = Some (ImgDict p orig x y r)" by (rule ds(4))
qed

text \<open>The separation and the stored values under a change of the live document.\<close>

lemma separated_live_change:
  assumes s: "separated w"
    and stacks: "h_undo_stack w' = h_undo_stack w" "h_redo_stack w' = h_redo_stack w"
    and agree: "\<And>a. a < length (store w) \<Longrightarrow> a \<notin> footprint (store w) (live w)
                  \<Longrightarrow> lookup (store w') a = lookup (store w) a"
    and grow: "length (store w) \<le> length (store w')"
    and newfp: "footprint (store w') (live w')
                 \<subseteq> footprint (store w) (live w) \<union> {length (store w)..<length (store w')}"
  shows "separated w' \<and> stored_views w' = stored_views w"
proof -
  from s have s': "sep (store w) (live w) (h_undo_stack w @ h_redo_stack w)"
    by (simp add: separated_def)
  note r = sep_live_change[OF s' agree grow newfp]
  have "separated w'" using r(1) stacks by (simp add: separated_def)
  moreover have "stored_views w' = stored_views w"
    using r(2) stacks by (simp add: stored_views_def)
  ultimately show ?thesis by simp
qed

lemma plain_write_keeps:
  assumes s: "separated w"
    and a: "a \<in> footprint (store w) (live w)"
    and old: "lookup (store w) a = Some old" "plain old" "plain v"
  shows "separated (w\<lparr>store := (store w)[a := v]\<rparr>)
         \<and> stored_views (w\<lparr>store := (store w)[a := v]\<rparr>) = stored_views w"
proof (rule separated_live_change[OF s])
  show "footprint (store (w\<lparr>store := (store w)[a := v]\<rparr>)) (live (w\<lparr>store := (store w)[a := v]\<rparr>))
        \<subseteq> footprint (store w) (live w)
           \<union> {length (store w)..<length (store (w\<lparr>store := (store w)[a := v]\<rparr>))}"
    using footprint_plain_update[OF old, of "live w"] by simp
  show "lookup (store (w\<lparr>store := (store w)[a := v]\<rparr>)) b = lookup (store w) b"
    if "b \<notin> footprint (store w) (live w)" for b
    using that a by (auto simp add: lookup_update)
qed simp_all

lemma separated_bounded_live: "separated w \<Longrightarrow> bounded (store w) (live w)"
  by (simp add: separated_def sep_def)

text \<open>A dictionary of the live document gets new item values: the assigned
  addresses are old live addresses or addresses of objects appended just before.\<close>

lemma dict_write_keeps:
  assumes s: "separated w"
    and d: "d \<in> footprint (store w) (live w)"
      "lookup (store w) d = Some (ImgDict p orig x y r)"
    and refs: "{p', r'} \<union> set_option orig' \<subseteq> footprint (store w) (live w)
                 \<union> {length (store w)..<length (store w @ ext)}"
    and w': "w' = w\<lparr>store := (store w @ ext)[d := ImgDict p' orig' x' y' r']\<rparr>"
  shows "separated w' \<and> stored_views w' = stored_views w"
proof (rule separated_live_change[OF s])
  let ?st = "store w"
  have b: "bounded ?st (live w)" by (rule separated_bounded_live[OF s])
  have dl: "d < length ?st" using d(2) by (rule lookup_Some_less)
  have l1: "lookup (?st @ ext) d = Some (ImgDict p orig x y r)"
    using d(2) dl by (simp add: lookup_append)
  have "footprint (store w') (live w')
        \<subseteq> footprint (?st @ ext) (live w) \<union> ({p', r'} \<union> set_option orig')"
    using footprint_dict_update[OF l1, of p' orig' x' y' r' "live w"] by (simp add: w')
  also have "footprint (?st @ ext) (live w) = footprint ?st (live w)"
    by (rule frame_append(1)[OF b])
  finally show "footprint (store w') (live w')
        \<subseteq> footprint ?st (live w) \<union> {length ?st..<length (store w')}"
    using refs by (auto simp add: w')
  show "lookup (store w') a = lookup ?st a"
    if "a < length ?st" "a \<notin> footprint ?st (live w)" for a
    using that d(1) by (auto simp add: w' lookup_update lookup_append)
qed (simp_all add: w')

lemma h_set_displayed_keeps:
  assumes "separated w" and "h_set_displayed i px w = Inr w'"
  shows "separated w' \<and> stored_views w' = stored_views w"
proof -
  from assms(2) obtain ds p orig x y r where
    ds: "lookup (store w) (d_images (live w)) = Some (ImgList ds)" "i < length ds"
      "lookup (store w) (ds ! i) = Some (ImgDict p orig x y r)"
    and w': "w' = w\<lparr>store := (store w @ [Pixmap px])[ds ! i := ImgDict (length (store w)) orig x y r]\<rparr>"
    by (auto simp add: h_set_displayed_def alloc_def split: option.splits obj.splits if_splits)
  have m: "ds ! i \<in> set ds" using ds(2) by simp
  have d: "ds ! i \<in> footprint (store w) (live w)" by (rule in_footprint(1)[OF ds(1) m])
  have "image_refs (store w) (ds ! i) = {p, r} \<union> set_option orig"
    using ds(3) by (simp add: image_refs_def)
  then have "set_option orig \<subseteq> footprint (store w) (live w)"
    "r \<in> footprint (store w) (live w)"
    using in_footprint(2)[OF ds(1) m] by auto
  then have refs: "{length (store w), r} \<union> set_option orig \<subseteq> footprint (store w) (live w)
       \<union> {length (store w)..<length (store w @ [Pixmap px])}" by auto
  show ?thesis by (rule dict_write_keeps[OF assms(1) d ds(3) refs w'])
qed

lemma list_write_keeps:
  assumes s: "separated w"
    and l: "lookup (store w) (d_images (live w)) = Some (ImgList ds)"
    and els: "set ds' \<subseteq> footprint (store w) (live w) \<union> {length (store w)..<length (store w @ ext)}"
    and refs: "\<And>n. n \<in> set ds' \<Longrightarrow> image_refs (store w @ ext) n
                 \<subseteq> footprint (store w) (live w) \<union> {length (store w)..<length (store w @ ext)}"
    and roots: "d_images lv' = d_images (live w)" "d_pixmap lv' = d_pixmap (live w)"
      "d_overlay lv' = d_overlay (live w)" "d_text lv' = d_text (live w)"
    and w': "w' = w\<lparr>store := (store w @ ext)[d_images (live w) := ImgList ds'], live := lv'\<rparr>"
  shows "separated w' \<and> stored_views w' = stored_views w"
proof (rule separated_live_change[OF s])
  let ?st = "store w"
  have b: "bounded ?st (live w)" by (rule separated_bounded_live[OF s])
  have al: "d_images (live w) < length ?st" using l by (rule lookup_Some_less)
  have l1: "lookup (?st @ ext) (d_images (live w)) = Some (ImgList ds)"
    using l al by (simp add: lookup_append)
  have "footprint (store w') (live w') = footprint (store w') (live w)"
    using footprint_roots(1)[OF roots] by (simp add: w')
  also have "\<dots> \<subseteq> footprint (?st @ ext) (live w) \<union> set ds'
                 \<union> (\<Union>n \<in> set ds'. image_refs (?st @ ext) n)"
    using footprint_list_update[OF l1, of ds' "live w"] by (simp add: w')
  also have "footprint (?st @ ext) (live w) = footprint ?st (live w)"
    by (rule frame_append(1)[OF b])
  finally show "footprint (store w') (live w')
        \<subseteq> footprint ?st (live w) \<union> {length ?st..<length (store w')}"
    using els refs by (auto simp add: w')
  show "lookup (store w') a = lookup ?st a"
    if "a < length ?st" "a \<notin> footprint ?st (live w)" for a
    using that roots_in_footprint(1)[of "live w" ?st]
    by (auto simp add: w' lookup_update lookup_append)
qed (simp_all add: w')

text \<open>The window refers to a new object: \<^verbatim>\<open>self.pixmap = ...\<close>, \<^verbatim>\<open>self.images = []\<close>.\<close>

lemma root_rebind_keeps:
  assumes s: "separated w"
    and im: "d_images lv' = d_images (live w) \<or> d_images lv' = length (store w) \<and> v = ImgList []"
    and rt: "{d_pixmap lv', d_overlay lv', d_text lv'}
             \<subseteq> footprint (store w) (live w) \<union> {length (store w)}"
    and w': "w' = w\<lparr>store := store w @ [v], live := lv'\<rparr>"
  shows "separated w' \<and> stored_views w' = stored_views w"
proof (rule separated_live_change[OF s])
  let ?st = "store w"
  have b: "bounded ?st (live w)" by (rule separated_bounded_live[OF s])
  have "footprint (?st @ [v]) lv' \<subseteq> footprint ?st (live w) \<union> {length ?st}"
  proof (cases "d_images lv' = d_images (live w)")
    case True
    have "footprint (?st @ [v]) lv'
          \<subseteq> footprint (?st @ [v]) (live w) \<union> {d_pixmap lv', d_overlay lv', d_text lv'}"
      using True by (auto simp add: footprint_def)
    then show ?thesis using frame_append(1)[OF b, of "[v]"] rt by auto
  next
    case False
    then have "d_images lv' = length ?st" "v = ImgList []" using im by auto
    then have "footprint (?st @ [v]) lv'
               = {length ?st, d_pixmap lv', d_overlay lv', d_text lv'}"
      by (simp add: footprint_def lookup_fresh)
    then show ?thesis using rt by auto
  qed
  then show "footprint (store w') (live w')
        \<subseteq> footprint ?st (live w) \<union> {length ?st..<length (store w')}"
    by (simp add: w')
  show "lookup (store w') a = lookup ?st a" if "a < length ?st" for a
    using that by (simp add: w' lookup_append)
qed (simp_all add: w')

text \<open>No change of the live document changes a stored snapshot, and the separation
  is kept.\<close>

lemma mutation_keeps:
  assumes s: "separated w" and m: "apply_mutation m w = Inr w'"
  shows "separated w' \<and> stored_views w' = stored_views w"
proof (cases m)
  case (PaintBackground px)
  with m obtain old where o: "lookup (store w) (d_pixmap (live w)) = Some (Pixmap old)"
    and w': "w' = w\<lparr>store := (store w)[d_pixmap (live w) := Pixmap px]\<rparr>"
    by (auto split: option.splits obj.splits)
  show ?thesis
    unfolding w'
    by (rule plain_write_keeps[OF s roots_in_footprint(2) o]) (simp_all add: plain_def)
next
  case (PaintOverlay px)
  with m obtain old where o: "lookup (store w) (d_overlay (live w)) = Some (Pixmap old)"
    and w': "w' = w\<lparr>store := (store w)[d_overlay (live w) := Pixmap px]\<rparr>"
    by (auto split: option.splits obj.splits)
  show ?thesis
    unfolding w'
    by (rule plain_write_keeps[OF s roots_in_footprint(3) o]) (simp_all add: plain_def)
next
  case (AppendText t)
  with m obtain ts where o: "lookup (store w) (d_text (live w)) = Some (TextList ts)"
    and w': "w' = w\<lparr>store := (store w)[d_text (live w) := TextList (ts @ [t])]\<rparr>"
    by (auto split: option.splits obj.splits)
  show ?thesis
    unfolding w'
    by (rule plain_write_keeps[OF s roots_in_footprint(4) o]) (simp_all add: plain_def)
next
  case (SetRect i rect)
  with m obtain d p orig x y r where li: "live_image i w = Inr (d, p, orig, x, y, r)"
    by (cases "live_image i w") (auto simp add: bind_def)
  with m SetRect obtain old where o: "lookup (store w) r = Some (Rect old)"
    and w': "w' = w\<lparr>store := (store w)[r := Rect rect]\<rparr>"
    by (auto simp add: bind_def split: option.splits obj.splits)
  show ?thesis
    unfolding w'
    by (rule plain_write_keeps[OF s live_image_footprint(4)[OF li] o]) (simp_all add: plain_def)
next
  case (SetPosition i x' y')
  with m obtain d p orig x y r where li: "live_image i w = Inr (d, p, orig, x, y, r)"
    by (cases "live_image i w") (auto simp add: bind_def)
  with m SetPosition have w': "w' = w\<lparr>store := (store w @ [])[d := ImgDict p orig x' y' r]\<rparr>"
    by (simp add: bind_def)
  note f = live_image_footprint[OF li]
  have refs: "{p, r} \<union> set_option orig \<subseteq> footprint (store w) (live w)
       \<union> {length (store w)..<length (store w @ [])}"
    using f(2,3,4) by auto
  show ?thesis by (rule dict_write_keeps[OF s f(1) f(5) refs w'])
next
  case (SetDisplayed i px)
  with m show ?thesis using h_set_displayed_keeps[OF s] by simp
next
  case (NewRect i rect)
  with m obtain d p orig x y r where li: "live_image i w = Inr (d, p, orig, x, y, r)"
    by (cases "live_image i w") (auto simp add: bind_def)
  with m NewRect have w':
    "w' = w\<lparr>store := (store w @ [Rect rect])[d := ImgDict p orig x y (length (store w))]\<rparr>"
    by (simp add: bind_def alloc_def)
  note f = live_image_footprint[OF li]
  have refs: "{p, length (store w)} \<union> set_option orig \<subseteq> footprint (store w) (live w)
       \<union> {length (store w)..<length (store w @ [Rect rect])}"
    using f(2,3) by auto
  show ?thesis by (rule dict_write_keeps[OF s f(1) f(5) refs w'])
next
  case (DeleteImage i)
  with m obtain ds where l: "lookup (store w) (d_images (live w)) = Some (ImgList ds)"
    and i: "i < length ds"
    and w': "w' = w\<lparr>store := (store w @ [])[d_images (live w)
                            := ImgList (take i ds @ drop (Suc i) ds)],
                     live := (live w)\<lparr>d_selected := None\<rparr>\<rparr>"
    by (auto split: option.splits obj.splits if_splits)
  have sub: "set (take i ds @ drop (Suc i) ds) \<subseteq> set ds"
    using set_take_subset[of i ds] set_drop_subset[of "Suc i" ds] by auto
  show ?thesis
  proof (rule list_write_keeps[OF s l _ _ _ _ _ _ w'])
    show "set (take i ds @ drop (Suc i) ds)
          \<subseteq> footprint (store w) (live w) \<union> {length (store w)..<length (store w @ [])}"
      using sub in_footprint(1)[OF l] by auto
    show "image_refs (store w @ []) n
          \<subseteq> footprint (store w) (live w) \<union> {length (store w)..<length (store w @ [])}"
      if "n \<in> set (take i ds @ drop (Suc i) ds)" for n
      using that sub in_footprint(2)[OF l, of n] by auto
  qed simp_all
next
  case (AppendImage px orig x y rect)
  let ?n = "length (store w)"
  let ?ext = "[Pixmap px, Pixmap orig, Rect rect, ImgDict ?n (Some (Suc ?n)) x y (Suc (Suc ?n))]"
  from m AppendImage obtain ds where
    l: "lookup (store w) (d_images (live w)) = Some (ImgList ds)"
    and w': "w' = w\<lparr>store := (store w @ ?ext)[d_images (live w) := ImgList (ds @ [Suc (Suc (Suc ?n))])],
                     live := live w\<rparr>"
    by (auto simp add: alloc_def split: option.splits obj.splits)
  have b: "bounded (store w) (live w)" by (rule separated_bounded_live[OF s])
  have new: "image_refs (store w @ ?ext) (Suc (Suc (Suc ?n))) = {?n, Suc ?n, Suc (Suc ?n)}"
    by (auto simp add: image_refs_def lookup_def nth_append)
  show ?thesis
  proof (rule list_write_keeps[OF s l _ _ _ _ _ _ w'])
    show "set (ds @ [Suc (Suc (Suc ?n))])
          \<subseteq> footprint (store w) (live w) \<union> {?n..<length (store w @ ?ext)}"
      using in_footprint(1)[OF l] by auto
    show "image_refs (store w @ ?ext) n
          \<subseteq> footprint (store w) (live w) \<union> {?n..<length (store w @ ?ext)}"
      if "n \<in> set (ds @ [Suc (Suc (Suc ?n))])" for n
    proof (cases "n = Suc (Suc (Suc ?n))")
      case True
      then show ?thesis using new by auto
    next
      case False
      then have nd: "n \<in> set ds" using that by simp
      then have "n \<in> footprint (store w) (live w)" by (rule in_footprint(1)[OF l])
      then have "n < ?n" using b by (auto simp add: bounded_def)
      then have "image_refs (store w @ ?ext) n = image_refs (store w) n"
        by (rule image_refs_append)
      then show ?thesis using in_footprint(2)[OF l nd] by auto
    qed
  qed simp_all
next
  case (AppendLoaded px x y rect)
  let ?n = "length (store w)"
  let ?ext = "[Pixmap px, Rect rect, ImgDict ?n None x y (Suc ?n)]"
  from m AppendLoaded obtain ds where
    l: "lookup (store w) (d_images (live w)) = Some (ImgList ds)"
    and w': "w' = w\<lparr>store := (store w @ ?ext)[d_images (live w) := ImgList (ds @ [Suc (Suc ?n)])],
                     live := live w\<rparr>"
    by (auto simp add: alloc_def split: option.splits obj.splits)
  have b: "bounded (store w) (live w)" by (rule separated_bounded_live[OF s])
  have new: "image_refs (store w @ ?ext) (Suc (Suc ?n)) = {?n, Suc ?n}"
    by (auto simp add: image_refs_def lookup_def nth_append)
  show ?thesis
  proof (rule list_write_keeps[OF s l _ _ _ _ _ _ w'])
    show "set (ds @ [Suc (Suc ?n)])
          \<subseteq> footprint (store w) (live w) \<union> {?n..<length (store w @ ?ext)}"
      using in_footprint(1)[OF l] by auto
    show "image_refs (store w @ ?ext) n
          \<subseteq> footprint (store w) (live w) \<union> {?n..<length (store w @ ?ext)}"
      if "n \<in> set (ds @ [Suc (Suc ?n)])" for n
    proof (cases "n = Suc (Suc ?n)")
      case True
      then show ?thesis using new by auto
    next
      case False
      then have nd: "n \<in> set ds" using that by simp
      then have "n \<in> footprint (store w) (live w)" by (rule in_footprint(1)[OF l])
      then have "n < ?n" using b by (auto simp add: bounded_def)
      then have "image_refs (store w @ ?ext) n = image_refs (store w) n"
        by (rule image_refs_append)
      then show ?thesis using in_footprint(2)[OF l nd] by auto
    qed
  qed simp_all
next
  case (NewBackground px)
  with m have w': "w' = w\<lparr>store := store w @ [Pixmap px],
                           live := (live w)\<lparr>d_pixmap := length (store w)\<rparr>\<rparr>"
    by (simp add: alloc_def)
  show ?thesis
    by (rule root_rebind_keeps[OF s _ _ w']) (simp_all add: roots_in_footprint)
next
  case (NewOverlay px)
  with m have w': "w' = w\<lparr>store := store w @ [Pixmap px],
                           live := (live w)\<lparr>d_overlay := length (store w)\<rparr>\<rparr>"
    by (simp add: alloc_def)
  show ?thesis
    by (rule root_rebind_keeps[OF s _ _ w']) (simp_all add: roots_in_footprint)
next
  case NewImageList
  with m have w': "w' = w\<lparr>store := store w @ [ImgList []],
                           live := (live w)\<lparr>d_images := length (store w)\<rparr>\<rparr>"
    by (simp add: alloc_def)
  show ?thesis
    by (rule root_rebind_keeps[OF s _ _ w']) (simp_all add: roots_in_footprint)
next
  case (NewTextList ts)
  with m have w': "w' = w\<lparr>store := store w @ [TextList ts],
                           live := (live w)\<lparr>d_text := length (store w)\<rparr>\<rparr>"
    by (simp add: alloc_def)
  show ?thesis
    by (rule root_rebind_keeps[OF s _ _ w']) (simp_all add: roots_in_footprint)
qed

lemma h_save_state_keeps:
  assumes s: "separated w" and r: "h_save_state w = Inr w'"
  shows "separated w'"
proof -
  from r obtain sn st' where c: "h_current_state (live w) (store w) = Inr (sn, st')"
    and w': "w' = w\<lparr>store := st', h_undo_stack := h_undo_stack w @ [sn], h_redo_stack := []\<rparr>"
    by (cases "h_current_state (live w) (store w)") (auto simp add: h_save_state_def bind_def)
  from s have s0: "sep (store w) (live w) (h_undo_stack w @ h_redo_stack w)"
    by (simp add: separated_def)
  have p: "sep st' (live w) (sn # (h_undo_stack w @ h_redo_stack w))"
    by (rule sep_push(1)[OF s0 c])
  then have d: "distinct (sn # (h_undo_stack w @ h_redo_stack w))" by (simp add: sep_def)
  have "sep st' (live w) (h_undo_stack w @ [sn])"
    by (rule sep_subset[OF p]) (use d in auto)
  then show ?thesis by (simp add: separated_def w')
qed

lemma separated_slider:
  assumes "separated w"
    and "d_images lv' = d_images (live w)" and "d_pixmap lv' = d_pixmap (live w)"
    and "d_overlay lv' = d_overlay (live w)" and "d_text lv' = d_text (live w)"
  shows "separated (w\<lparr>live := lv'\<rparr>)"
  using sep_same_roots[OF assms(1)[unfolded separated_def] assms(2-5)]
  by (simp add: separated_def)

lemma h_filter_handler_keeps:
  assumes s: "separated w" and r: "h_filter_handler env flt w = Inr w'"
  shows "separated w'"
proof (cases "d_selected (live w)")
  case None
  then show ?thesis using s r by (simp add: h_filter_handler_def)
next
  case (Some i)
  from r Some obtain ds where ds: "lookup (store w) (d_images (live w)) = Some (ImgList ds)"
    by (auto simp add: h_filter_handler_def split: option.splits obj.splits)
  show ?thesis
  proof (cases "ds = []")
    case True
    then show ?thesis using s r Some ds by (simp add: h_filter_handler_def)
  next
    case False
    from r Some ds False obtain w1 where w1: "h_save_state w = Inr w1"
      by (cases "h_save_state w") (auto simp add: h_filter_handler_def bind_def)
    from r Some ds False w1 obtain px where "h_set_displayed i px w1 = Inr w'"
      by (auto simp add: h_filter_handler_def bind_def split: option.splits obj.splits if_splits)
    from h_set_displayed_keeps[OF h_save_state_keeps[OF s w1] this] show ?thesis by simp
  qed
qed

lemma setValue_keeps:
  assumes s: "separated w"
  shows "h_threshold_setValue env v w = Inr w' \<Longrightarrow> separated w'"
    and "h_sharp_setValue env v w = Inr w' \<Longrightarrow> separated w'"
    and "h_gamma_setValue env v w = Inr w' \<Longrightarrow> separated w'"
proof -
  have k: "separated (w\<lparr>live := (live w)\<lparr>d_threshold := x\<rparr>\<rparr>)"
    "separated (w\<lparr>live := (live w)\<lparr>d_sharp := x\<rparr>\<rparr>)"
    "separated (w\<lparr>live := (live w)\<lparr>d_gamma := x\<rparr>\<rparr>)" for x
    by (rule separated_slider[OF s]; simp)+
  show "h_threshold_setValue env v w = Inr w' \<Longrightarrow> separated w'"
    using s h_filter_handler_keeps[OF k(1)]
    by (auto simp add: h_threshold_setValue_def Let_def split: if_splits)
  show "h_sharp_setValue env v w = Inr w' \<Longrightarrow> separated w'"
    using s h_filter_handler_keeps[OF k(2)]
    by (auto simp add: h_sharp_setValue_def Let_def split: if_splits)
  show "h_gamma_setValue env v w = Inr w' \<Longrightarrow> separated w'"
    using s h_filter_handler_keeps[OF k(3)]
    by (auto simp add: h_gamma_setValue_def Let_def split: if_splits)
qed

lemma h_restore_keeps:
  assumes s: "separated (w\<lparr>live := (live w)\<lparr>d_images := d_images sn, d_selected := d_selected sn,
                                   d_pixmap := d_pixmap sn, d_overlay := d_overlay sn,
                                   d_text := d_text sn\<rparr>\<rparr>)"
    and r: "h_restore env sn w = Inr w'"
  shows "separated w'"
proof -
  let ?w1 = "w\<lparr>live := (live w)\<lparr>d_images := d_images sn, d_selected := d_selected sn,
                                   d_pixmap := d_pixmap sn, d_overlay := d_overlay sn,
                                   d_text := d_text sn\<rparr>\<rparr>"
  from r obtain w2 where w2: "h_threshold_setValue env (d_threshold sn) ?w1 = Inr w2"
    by (cases "h_threshold_setValue env (d_threshold sn) ?w1")
      (auto simp add: h_restore_def Let_def bind_def)
  from r w2 obtain w3 where w3: "h_sharp_setValue env (d_sharp sn) w2 = Inr w3"
    by (cases "h_sharp_setValue env (d_sharp sn) w2")
      (auto simp add: h_restore_def Let_def bind_def)
  from r w2 w3 have w4: "h_gamma_setValue env (d_gamma sn) w3 = Inr w'"
    by (simp add: h_restore_def Let_def bind_def)
  from setValue_keeps(3)[OF setValue_keeps(2)[OF setValue_keeps(1)[OF s w2] w3] w4]
  show ?thesis .
qed

text \<open>Undo and redo: a copy of the live document is pushed on one stack, the top of
  the other stack is popped and becomes the live document.\<close>

lemma swap_keeps:
  assumes s0: "sep st lv (from_stack @ to_stack)" and ne: "from_stack \<noteq> []"
    and c: "h_current_state lv st = Inr (cur, st')"
    and roots: "d_images lv' = d_images (last from_stack)"
      "d_pixmap lv' = d_pixmap (last from_stack)"
      "d_overlay lv' = d_overlay (last from_stack)" "d_text lv' = d_text (last from_stack)"
  shows "sep st' lv' (butlast from_stack @ (to_stack @ [cur]))"
    and "sep st' lv' ((to_stack @ [cur]) @ butlast from_stack)"
proof -
  let ?s = "last from_stack"
  have p: "sep st' lv (cur # (from_stack @ to_stack))" by (rule sep_push(1)[OF s0 c])
  then have d: "distinct (cur # (from_stack @ to_stack))" by (simp add: sep_def)
  have fs: "from_stack = butlast from_stack @ [?s]" using ne by simp
  have dd: "distinct (cur # (butlast from_stack @ [?s]) @ to_stack)"
    using d fs by simp
  have m: "?s \<in> set (cur # (from_stack @ to_stack))" using ne by simp
  have sub: "set (butlast from_stack @ (to_stack @ [cur]))
             \<subseteq> set (cur # (from_stack @ to_stack)) - {?s}"
    using dd by (auto dest: in_set_butlastD)
  have dis: "distinct (butlast from_stack @ (to_stack @ [cur]))"
    using dd by auto
  show "sep st' lv' (butlast from_stack @ (to_stack @ [cur]))"
    by (rule sep_take_over[OF p m roots sub dis])
  then show "sep st' lv' ((to_stack @ [cur]) @ butlast from_stack)"
    by (rule sep_subset) (use dis in auto)
qed

lemma h_undo_action_keeps:
  assumes s: "separated w" and r: "h_undo_action env w = Inr w'"
  shows "separated w'"
proof (cases "h_undo_stack w = []")
  case True
  then show ?thesis using s r by (simp add: h_undo_action_def)
next
  case False
  from r False obtain cur st' where c: "h_current_state (live w) (store w) = Inr (cur, st')"
    by (cases "h_current_state (live w) (store w)") (auto simp add: h_undo_action_def bind_def)
  let ?w2 = "w\<lparr>store := st', h_redo_stack := h_redo_stack w @ [cur],
               h_undo_stack := butlast (h_undo_stack w)\<rparr>"
  let ?s = "last (h_undo_stack w)"
  from r False c have rs: "h_restore env ?s ?w2 = Inr w'"
    by (simp add: h_undo_action_def bind_def Let_def)
  from s have s0: "sep (store w) (live w) (h_undo_stack w @ h_redo_stack w)"
    by (simp add: separated_def)
  have "sep st' ((live w)\<lparr>d_images := d_images ?s, d_selected := d_selected ?s,
                           d_pixmap := d_pixmap ?s, d_overlay := d_overlay ?s,
                           d_text := d_text ?s\<rparr>)
          (butlast (h_undo_stack w) @ (h_redo_stack w @ [cur]))"
    by (rule swap_keeps(1)[OF s0 False c]) simp_all
  then show ?thesis
    by (intro h_restore_keeps[OF _ rs]) (simp add: separated_def)
qed

lemma h_redo_action_keeps:
  assumes s: "separated w" and r: "h_redo_action env w = Inr w'"
  shows "separated w'"
proof (cases "h_redo_stack w = []")
  case True
  then show ?thesis using s r by (simp add: h_redo_action_def)
next
  case False
  from r False obtain cur st' where c: "h_current_state (live w) (store w) = Inr (cur, st')"
    by (cases "h_current_state (live w) (store w)") (auto simp add: h_redo_action_def bind_def)
  let ?w2 = "w\<lparr>store := st', h_undo_stack := h_undo_stack w @ [cur],
               h_redo_stack := butlast (h_redo_stack w)\<rparr>"
  let ?s = "last (h_redo_stack w)"
  from r False c have rs: "h_restore env ?s ?w2 = Inr w'"
    by (simp add: h_redo_action_def bind_def Let_def)
  from s have s1: "sep (store w) (live w) (h_undo_stack w @ h_redo_stack w)"
    by (simp add: separated_def)
  then have d1: "distinct (h_undo_stack w @ h_redo_stack w)" by (simp add: sep_def)
  have s0: "sep (store w) (live w) (h_redo_stack w @ h_undo_stack w)"
    by (rule sep_subset[OF s1]) (use d1 in auto)
  have "sep st' ((live w)\<lparr>d_images := d_images ?s, d_selected := d_selected ?s,
                           d_pixmap := d_pixmap ?s, d_overlay := d_overlay ?s,
                           d_text := d_text ?s\<rparr>)
          ((h_undo_stack w @ [cur]) @ butlast (h_redo_stack w))"
    by (rule swap_keeps(2)[OF s0 False c]) simp_all
  then show ?thesis
    by (intro h_restore_keeps[OF _ rs]) (simp add: separated_def)
qed

lemma init_separated: "separated (h_init_window wd ht)"
  by (simp add: separated_def sep_def bounded_def footprint_def h_init_window_def lookup_def)

lemma hreach_separated: "hreach env w \<Longrightarrow> separated w"
proof (induction rule: hreach.induct)
  case (Init wd ht)
  show ?case by (rule init_separated)
next
  case (Save w w')
  then show ?case using h_save_state_keeps by blast
next
  case (Undo w w')
  then show ?case using h_undo_action_keeps by blast
next
  case (Redo w w')
  then show ?case using h_redo_action_keeps by blast
next
  case (Mutate w m w')
  then show ?case using mutation_keeps by blast
next
  case (Select w sel)
  show ?case by (rule separated_slider[OF Select.IH]) simp_all
next
  case (Threshold w v w')
  then show ?case using setValue_keeps(1) by blast
next
  case (Sharp w v w')
  then show ?case using setValue_keeps(2) by blast
next
  case (Gamma w v w')
  then show ?case using setValue_keeps(3) by blast
qed

text \<open>A copied image has the value of the image it was copied from.\<close>

lemma copy_image_view:
  assumes c: "copy_image d st = Inr (n, st')"
    and b: "image_refs st d \<subseteq> {..<length st}"
  shows "view_image st' n = view_image st d" and "view_image st' n \<noteq> None"
proof -
  from copy_image_Inr[OF c] obtain p orig x y r pp oo rr where
    d: "lookup st d = Some (ImgDict p (Some orig) x y r)"
    and p: "lookup st p = Some (Pixmap pp)"
    and o: "lookup (st @ [Pixmap pp]) orig = Some (Pixmap oo)"
    and r: "lookup (st @ [Pixmap pp, Pixmap oo]) r = Some (Rect rr)"
    and st': "st' = st @ [Pixmap pp, Pixmap oo, Rect rr,
                          ImgDict (length st) (Some (length st + 1)) x y (length st + 2)]"
    and n: "n = length st + 3" by blast
  have lt: "orig < length st" "r < length st"
    using b d by (auto simp add: image_refs_def)
  have o': "lookup st orig = Some (Pixmap oo)" using o lt(1) by (simp add: lookup_append)
  have r': "lookup st r = Some (Rect rr)" using r lt(2) by (simp add: lookup_append)
  have old: "view_image st d =
      Some \<lparr>img_pixmap = pp, original_pixmap = Some oo, img_x = x, img_y = y, img_rect = rr\<rparr>"
    by (simp add: view_image_def d p o' r')
  have new: "view_image st' n =
      Some \<lparr>img_pixmap = pp, original_pixmap = Some oo, img_x = x, img_y = y, img_rect = rr\<rparr>"
    by (simp add: view_image_def st' n lookup_def nth_append)
  show "view_image st' n = view_image st d" using old new by simp
  show "view_image st' n \<noteq> None" using new by simp
qed

lemma view_image_append:
  assumes "n < length st" and "image_refs st n \<subseteq> {..<length st}"
  shows "view_image (st @ ext) n = view_image st n"
proof -
  have l: "lookup (st @ ext) n = lookup st n" using assms(1) by (rule lookup_append)
  show ?thesis
  proof (cases "lookup st n")
    case None
    then show ?thesis using l by (simp add: view_image_def)
  next
    case (Some v)
    note lv = Some
    show ?thesis
    proof (cases v)
      case (ImgDict p oa x y r)
      show ?thesis
      proof (cases oa)
        case None
        then show ?thesis using l lv ImgDict by (simp add: view_image_def)
      next
        case (Some orig)
        then have "p < length st" "orig < length st" "r < length st"
          using assms(2) lv ImgDict by (auto simp add: image_refs_def)
        then have "lookup (st @ ext) p = lookup st p" "lookup (st @ ext) orig = lookup st orig"
          "lookup (st @ ext) r = lookup st r"
          by (simp_all add: lookup_append)
        then show ?thesis
          using l lv ImgDict Some by (simp add: view_image_def split: option.splits obj.splits)
      qed
    qed (use l lv in \<open>simp_all add: view_image_def\<close>)
  qed
qed

lemma copy_images_view:
  assumes "copy_images ds st = Inr (ds', st')"
    and "\<forall>d \<in> set ds. d < length st \<and> image_refs st d \<subseteq> {..<length st}"
  shows "map (view_image st') ds' = map (view_image st) ds
         \<and> (\<forall>n \<in> set ds'. view_image st' n \<noteq> None)"
  using assms
proof (induction ds arbitrary: st ds' st')
  case Nil
  then show ?case by simp
next
  case (Cons d ds)
  from Cons.prems(1) obtain d1 st1 where c1: "copy_image d st = Inr (d1, st1)"
    by (cases "copy_image d st") (auto simp add: bind_def)
  from Cons.prems(1) c1 obtain ds2 st2 where c2: "copy_images ds st1 = Inr (ds2, st2)"
    by (cases "copy_images ds st1") (auto simp add: bind_def)
  from Cons.prems(1) c1 c2 have r: "ds' = d1 # ds2" "st' = st2"
    by (simp_all add: bind_def)
  from copy_image_fresh[OF c1] obtain e1 where
    f1: "st1 = st @ e1" "length st \<le> d1" "d1 < length st1"
      "image_refs st1 d1 \<subseteq> {length st..<length st1}" by blast
  from copy_images_fresh[OF c2] obtain e2 where f2: "st2 = st1 @ e2" by blast
  have b1: "image_refs st d \<subseteq> {..<length st}" using Cons.prems(2) by simp
  note v1 = copy_image_view[OF c1 b1]
  have old: "a < length st" "image_refs st a \<subseteq> {..<length st}" if "a \<in> set ds" for a
    using Cons.prems(2) that by simp_all
  have b2: "\<forall>a \<in> set ds. a < length st1 \<and> image_refs st1 a \<subseteq> {..<length st1}"
  proof
    fix a assume a: "a \<in> set ds"
    have "image_refs st1 a = image_refs st a"
      using old(1)[OF a] by (simp add: f1(1) image_refs_append)
    then show "a < length st1 \<and> image_refs st1 a \<subseteq> {..<length st1}"
      using old[OF a] f1(1) by fastforce
  qed
  note ih = Cons.IH[OF c2 b2]
  have d1v: "view_image st2 d1 = view_image st1 d1"
  proof -
    have "image_refs st1 d1 \<subseteq> {..<length st1}" using f1(4) by auto
    then show ?thesis using view_image_append[OF f1(3), of e2] f2 by simp
  qed
  have rest: "map (view_image st1) ds = map (view_image st) ds"
  proof (rule map_cong[OF refl])
    fix a assume a: "a \<in> set ds"
    show "view_image st1 a = view_image st a"
      using view_image_append[OF old[OF a], of e1] f1(1) by simp
  qed
  show ?case
    using r v1 ih d1v rest by simp
qed

lemma those_defined: "(\<forall>x \<in> set xs. f x \<noteq> None) \<Longrightarrow> those (map f xs) \<noteq> None"
  by (induction xs) (auto split: option.splits)

text \<open>A snapshot is a deep copy: its value in the new store is the value of the
  document, and it is defined.\<close>

lemma h_current_state_view:
  assumes c: "h_current_state d st = Inr (s, st')" and b: "bounded st d"
  shows "view st' s = view st d" and "view st' s \<noteq> None"
proof -
  from c obtain ds where ds: "lookup st (d_images d) = Some (ImgList ds)"
    by (auto simp add: h_current_state_def split: option.splits obj.splits)
  from c ds obtain ds' st1 where c1: "copy_images ds st = Inr (ds', st1)"
    by (cases "copy_images ds st") (auto simp add: h_current_state_def bind_def)
  define st2 where "st2 = st1 @ [ImgList ds']"
  from c ds c1 obtain p' st3 where c2: "copy_pixmap (d_pixmap d) st2 = Inr (p', st3)"
    by (cases "copy_pixmap (d_pixmap d) st2")
      (auto simp add: h_current_state_def bind_def alloc_def st2_def)
  from c ds c1 c2 obtain o' st4 where c3: "copy_pixmap (d_overlay d) st3 = Inr (o', st4)"
    by (cases "copy_pixmap (d_overlay d) st3")
      (auto simp add: h_current_state_def bind_def alloc_def st2_def)
  from c ds c1 c2 c3 obtain ts where ts: "lookup st4 (d_text d) = Some (TextList ts)"
    by (auto simp add: h_current_state_def bind_def alloc_def st2_def
        split: option.splits obj.splits)
  from c ds c1 c2 c3 ts have res:
    "s = d\<lparr>d_images := length st1, d_pixmap := p', d_overlay := o', d_text := length st4\<rparr>"
    "st' = st4 @ [TextList ts]"
    by (simp_all add: h_current_state_def bind_def alloc_def st2_def)
  from copy_images_fresh[OF c1] obtain e1 where
    f1: "st1 = st @ e1"
      "\<forall>n \<in> set ds'. length st \<le> n \<and> n < length st1
          \<and> image_refs st1 n \<subseteq> {length st..<length st1}" by blast
  from copy_pixmap_Inr[OF c2] obtain pp where
    f2: "lookup st2 (d_pixmap d) = Some (Pixmap pp)" "p' = length st2" "st3 = st2 @ [Pixmap pp]"
    by blast
  from copy_pixmap_Inr[OF c3] obtain oo where
    f3: "lookup st3 (d_overlay d) = Some (Pixmap oo)" "o' = length st3" "st4 = st3 @ [Pixmap oo]"
    by blast
  have st': "st' = st1 @ [ImgList ds', Pixmap pp, Pixmap oo, TextList ts]"
    using res(2) f2 f3 by (simp add: st2_def)
  have rb: "d_pixmap d < length st" "d_overlay d < length st" "d_text d < length st"
    using b roots_in_footprint[of d st] by (auto simp add: bounded_def)
  have lp: "lookup st (d_pixmap d) = Some (Pixmap pp)"
    using f2(1) rb(1) by (simp add: st2_def f1(1) lookup_def nth_append)
  have lo: "lookup st (d_overlay d) = Some (Pixmap oo)"
    using f3(1) rb(2) by (simp add: f2(3) st2_def f1(1) lookup_def nth_append)
  have lt: "lookup st (d_text d) = Some (TextList ts)"
    using ts rb(3) by (simp add: f3(3) f2(3) st2_def f1(1) lookup_def nth_append)
  have eb: "\<forall>a \<in> set ds. a < length st \<and> image_refs st a \<subseteq> {..<length st}"
  proof
    fix a assume a: "a \<in> set ds"
    from in_footprint[OF ds a] b
    show "a < length st \<and> image_refs st a \<subseteq> {..<length st}"
      by (auto simp add: bounded_def)
  qed
  note cv = copy_images_view[OF c1 eb]
  have vi: "view_image st' n = view_image st1 n" if "n \<in> set ds'" for n
  proof -
    have "n < length st1" "image_refs st1 n \<subseteq> {..<length st1}"
      using f1(2) that by fastforce+
    then show ?thesis unfolding st' by (rule view_image_append)
  qed
  then have m: "map (view_image st') ds' = map (view_image st) ds"
    using cv by (simp cong: map_cong)
  have defd: "those (map (view_image st) ds) \<noteq> None"
  proof -
    have "\<forall>n \<in> set ds'. view_image st1 n \<noteq> None" using cv by simp
    then have "those (map (view_image st1) ds') \<noteq> None" by (rule those_defined)
    then show ?thesis using cv by simp
  qed
  have len: "p' = length st1 + 1" "o' = length st1 + 2" "length st4 = length st1 + 3"
    using f2 f3 by (simp_all add: st2_def)
  have new: "lookup st' (length st1) = Some (ImgList ds')" "lookup st' p' = Some (Pixmap pp)"
    "lookup st' o' = Some (Pixmap oo)" "lookup st' (length st4) = Some (TextList ts)"
    by (simp_all add: st' len lookup_def nth_append)
  have vn: "view st' s = (case those (map (view_image st) ds) of
              Some imgs \<Rightarrow>
                Some \<lparr>s_images = imgs, s_selected_image_index = d_selected d, s_pixmap = pp,
                      s_overlay_pixmap = oo, s_text_objects = ts,
                      threshold_value = d_threshold d, sharp_value = d_sharp d,
                      gamma_value = d_gamma d\<rparr>
            | None \<Rightarrow> None)"
    by (simp add: view_def res(1) new m split: option.splits)
  have vo: "view st d = (case those (map (view_image st) ds) of
              Some imgs \<Rightarrow>
                Some \<lparr>s_images = imgs, s_selected_image_index = d_selected d, s_pixmap = pp,
                      s_overlay_pixmap = oo, s_text_objects = ts,
                      threshold_value = d_threshold d, sharp_value = d_sharp d,
                      gamma_value = d_gamma d\<rparr>
            | None \<Rightarrow> None)"
    by (simp add: view_def ds lp lo lt)
  show "view st' s = view st d" using vn vo by simp
  show "view st' s \<noteq> None" using vn defd by (auto split: option.splits)
qed

lemma stored_defined_iff:
  "stored_defined w \<longleftrightarrow> (\<forall>s \<in> set (h_undo_stack w @ h_redo_stack w). view (store w) s \<noteq> None)"
proof -
  have "set (fst (stored_views w) @ snd (stored_views w))
        = view (store w) ` set (h_undo_stack w @ h_redo_stack w)"
    by (simp add: stored_views_def image_Un)
  then show ?thesis unfolding stored_defined_def by (metis imageE imageI)
qed

lemma stored_defined_live: "stored_defined (w\<lparr>live := lv\<rparr>) = stored_defined w"
  by (simp add: stored_defined_iff)

lemma separated_bounded_stored:
  "separated w \<Longrightarrow> s \<in> set (h_undo_stack w @ h_redo_stack w) \<Longrightarrow> bounded (store w) s"
  by (simp add: separated_def sep_def)

text \<open>Taking a snapshot keeps the values of the stored ones, and the new one has a
  value.\<close>

lemma snapshot_defined:
  assumes s: "separated w" and d: "stored_defined w"
    and c: "h_current_state (live w) (store w) = Inr (sn, st')"
    and sub: "set us \<union> set rs \<subseteq> insert sn (set (h_undo_stack w @ h_redo_stack w))"
  shows "stored_defined (w\<lparr>store := st', h_undo_stack := us, h_redo_stack := rs\<rparr>)"
proof -
  from h_current_state_fresh[OF c] obtain ext where ext: "st' = store w @ ext" by blast
  have new: "view st' sn \<noteq> None"
    by (rule h_current_state_view(2)[OF c separated_bounded_live[OF s]])
  have old: "view st' t \<noteq> None" if "t \<in> set (h_undo_stack w @ h_redo_stack w)" for t
  proof -
    have "view st' t = view (store w) t"
      unfolding ext by (rule frame_append(2)[OF separated_bounded_stored[OF s that]])
    then show ?thesis using d that by (simp add: stored_defined_iff)
  qed
  show ?thesis using new old sub by (auto simp add: stored_defined_iff)
qed

lemma h_save_state_defined:
  assumes s: "separated w" and d: "stored_defined w" and r: "h_save_state w = Inr w'"
  shows "stored_defined w'"
proof -
  from r obtain sn st' where c: "h_current_state (live w) (store w) = Inr (sn, st')"
    and w': "w' = w\<lparr>store := st', h_undo_stack := h_undo_stack w @ [sn], h_redo_stack := []\<rparr>"
    by (cases "h_current_state (live w) (store w)") (auto simp add: h_save_state_def bind_def)
  show ?thesis unfolding w' by (rule snapshot_defined[OF s d c]) auto
qed

lemma h_filter_handler_defined:
  assumes s: "separated w" and d: "stored_defined w" and r: "h_filter_handler env flt w = Inr w'"
  shows "stored_defined w'"
proof (cases "d_selected (live w)")
  case None
  then show ?thesis using d r by (simp add: h_filter_handler_def)
next
  case (Some i)
  from r Some obtain ds where ds: "lookup (store w) (d_images (live w)) = Some (ImgList ds)"
    by (auto simp add: h_filter_handler_def split: option.splits obj.splits)
  show ?thesis
  proof (cases "ds = []")
    case True
    then show ?thesis using d r Some ds by (simp add: h_filter_handler_def)
  next
    case False
    from r Some ds False obtain w1 where w1: "h_save_state w = Inr w1"
      by (cases "h_save_state w") (auto simp add: h_filter_handler_def bind_def)
    from r Some ds False w1 obtain px where "h_set_displayed i px w1 = Inr w'"
      by (auto simp add: h_filter_handler_def bind_def split: option.splits obj.splits if_splits)
    from h_set_displayed_keeps[OF h_save_state_keeps[OF s w1] this]
    have "stored_views w' = stored_views w1" by simp
    then show ?thesis using h_save_state_defined[OF s d w1] by (simp add: stored_defined_def)
  qed
qed

lemma setValue_defined:
  assumes s: "separated w" and d: "stored_defined w"
  shows "h_threshold_setValue env v w = Inr w' \<Longrightarrow> stored_defined w'"
    and "h_sharp_setValue env v w = Inr w' \<Longrightarrow> stored_defined w'"
    and "h_gamma_setValue env v w = Inr w' \<Longrightarrow> stored_defined w'"
proof -
  have k: "separated (w\<lparr>live := (live w)\<lparr>d_threshold := x\<rparr>\<rparr>)"
    "separated (w\<lparr>live := (live w)\<lparr>d_sharp := x\<rparr>\<rparr>)"
    "separated (w\<lparr>live := (live w)\<lparr>d_gamma := x\<rparr>\<rparr>)" for x
    by (rule separated_slider[OF s]; simp)+
  have e: "stored_defined (w\<lparr>live := lv\<rparr>)" for lv
    using d by (simp add: stored_defined_live)
  show "h_threshold_setValue env v w = Inr w' \<Longrightarrow> stored_defined w'"
    using d h_filter_handler_defined[OF k(1) e]
    by (auto simp add: h_threshold_setValue_def Let_def split: if_splits)
  show "h_sharp_setValue env v w = Inr w' \<Longrightarrow> stored_defined w'"
    using d h_filter_handler_defined[OF k(2) e]
    by (auto simp add: h_sharp_setValue_def Let_def split: if_splits)
  show "h_gamma_setValue env v w = Inr w' \<Longrightarrow> stored_defined w'"
    using d h_filter_handler_defined[OF k(3) e]
    by (auto simp add: h_gamma_setValue_def Let_def split: if_splits)
qed

lemma h_restore_defined:
  assumes s: "separated (w\<lparr>live := (live w)\<lparr>d_images := d_images sn, d_selected := d_selected sn,
                                   d_pixmap := d_pixmap sn, d_overlay := d_overlay sn,
                                   d_text := d_text sn\<rparr>\<rparr>)"
    and d: "stored_defined w"
    and r: "h_restore env sn w = Inr w'"
  shows "stored_defined w'"
proof -
  let ?w1 = "w\<lparr>live := (live w)\<lparr>d_images := d_images sn, d_selected := d_selected sn,
                                   d_pixmap := d_pixmap sn, d_overlay := d_overlay sn,
                                   d_text := d_text sn\<rparr>\<rparr>"
  have d1: "stored_defined ?w1" using d by (simp add: stored_defined_live)
  from r obtain w2 where w2: "h_threshold_setValue env (d_threshold sn) ?w1 = Inr w2"
    by (cases "h_threshold_setValue env (d_threshold sn) ?w1")
      (auto simp add: h_restore_def Let_def bind_def)
  from r w2 obtain w3 where w3: "h_sharp_setValue env (d_sharp sn) w2 = Inr w3"
    by (cases "h_sharp_setValue env (d_sharp sn) w2")
      (auto simp add: h_restore_def Let_def bind_def)
  from r w2 w3 have w4: "h_gamma_setValue env (d_gamma sn) w3 = Inr w'"
    by (simp add: h_restore_def Let_def bind_def)
  note s2 = setValue_keeps(1)[OF s w2]
  note d2 = setValue_defined(1)[OF s d1 w2]
  note s3 = setValue_keeps(2)[OF s2 w3]
  note d3 = setValue_defined(2)[OF s2 d2 w3]
  show ?thesis by (rule setValue_defined(3)[OF s3 d3 w4])
qed

lemma h_undo_action_defined:
  assumes s: "separated w" and d: "stored_defined w" and r: "h_undo_action env w = Inr w'"
  shows "stored_defined w'"
proof (cases "h_undo_stack w = []")
  case True
  then show ?thesis using d r by (simp add: h_undo_action_def)
next
  case False
  from r False obtain cur st' where c: "h_current_state (live w) (store w) = Inr (cur, st')"
    by (cases "h_current_state (live w) (store w)") (auto simp add: h_undo_action_def bind_def)
  let ?w2 = "w\<lparr>store := st', h_redo_stack := h_redo_stack w @ [cur],
               h_undo_stack := butlast (h_undo_stack w)\<rparr>"
  let ?s = "last (h_undo_stack w)"
  from r False c have rs: "h_restore env ?s ?w2 = Inr w'"
    by (simp add: h_undo_action_def bind_def Let_def)
  from s have s0: "sep (store w) (live w) (h_undo_stack w @ h_redo_stack w)"
    by (simp add: separated_def)
  have sp: "sep st' ((live w)\<lparr>d_images := d_images ?s, d_selected := d_selected ?s,
                           d_pixmap := d_pixmap ?s, d_overlay := d_overlay ?s,
                           d_text := d_text ?s\<rparr>)
          (butlast (h_undo_stack w) @ (h_redo_stack w @ [cur]))"
    by (rule swap_keeps(1)[OF s0 False c]) simp_all
  have "stored_defined (w\<lparr>store := st', h_undo_stack := butlast (h_undo_stack w),
                           h_redo_stack := h_redo_stack w @ [cur]\<rparr>)"
    by (rule snapshot_defined[OF s d c]) (auto dest: in_set_butlastD)
  then have d2: "stored_defined ?w2" by (simp add: stored_defined_iff)
  show ?thesis
    by (rule h_restore_defined[OF _ d2 rs]) (use sp in \<open>simp add: separated_def\<close>)
qed

lemma h_redo_action_defined:
  assumes s: "separated w" and d: "stored_defined w" and r: "h_redo_action env w = Inr w'"
  shows "stored_defined w'"
proof (cases "h_redo_stack w = []")
  case True
  then show ?thesis using d r by (simp add: h_redo_action_def)
next
  case False
  from r False obtain cur st' where c: "h_current_state (live w) (store w) = Inr (cur, st')"
    by (cases "h_current_state (live w) (store w)") (auto simp add: h_redo_action_def bind_def)
  let ?w2 = "w\<lparr>store := st', h_undo_stack := h_undo_stack w @ [cur],
               h_redo_stack := butlast (h_redo_stack w)\<rparr>"
  let ?s = "last (h_redo_stack w)"
  from r False c have rs: "h_restore env ?s ?w2 = Inr w'"
    by (simp add: h_redo_action_def bind_def Let_def)
  from s have s1: "sep (store w) (live w) (h_undo_stack w @ h_redo_stack w)"
    by (simp add: separated_def)
  then have d1: "distinct (h_undo_stack w @ h_redo_stack w)" by (simp add: sep_def)
  have s0: "sep (store w) (live w) (h_redo_stack w @ h_undo_stack w)"
    by (rule sep_subset[OF s1]) (use d1 in auto)
  have sp: "sep st' ((live w)\<lparr>d_images := d_images ?s, d_selected := d_selected ?s,
                           d_pixmap := d_pixmap ?s, d_overlay := d_overlay ?s,
                           d_text := d_text ?s\<rparr>)
          ((h_undo_stack w @ [cur]) @ butlast (h_redo_stack w))"
    by (rule swap_keeps(2)[OF s0 False c]) simp_all
  have d2: "stored_defined ?w2"
    by (rule snapshot_defined[OF s d c]) (auto dest: in_set_butlastD)
  show ?thesis
    by (rule h_restore_defined[OF _ d2 rs]) (use sp in \<open>simp add: separated_def\<close>)
qed

lemma init_defined: "stored_defined (h_init_window wd ht)"
  by (simp add: stored_defined_iff h_init_window_def)

text \<open>In every state of the window, the stored snapshots share nothing with the live
  document or with each other, and each has a value.\<close>

lemma hreach_invariant: "hreach env w \<Longrightarrow> separated w \<and> stored_defined w"
proof (induction rule: hreach.induct)
  case (Init wd ht)
  show ?case using init_separated init_defined by blast
next
  case (Save w w')
  then show ?case using h_save_state_keeps h_save_state_defined by blast
next
  case (Undo w w')
  then show ?case using h_undo_action_keeps h_undo_action_defined by blast
next
  case (Redo w w')
  then show ?case using h_redo_action_keeps h_redo_action_defined by blast
next
  case (Mutate w m w')
  then have "separated w' \<and> stored_views w' = stored_views w" using mutation_keeps by blast
  then show ?case using Mutate.IH by (simp add: stored_defined_def)
next
  case (Select w sel)
  have "separated (w\<lparr>live := (live w)\<lparr>d_selected := sel\<rparr>\<rparr>)"
    by (rule separated_slider) (use Select.IH in simp_all)
  then show ?case using Select.IH by (simp add: stored_defined_live)
next
  case (Threshold w v w')
  then show ?case using setValue_keeps(1) setValue_defined(1) by blast
next
  case (Sharp w v w')
  then show ?case using setValue_keeps(2) setValue_defined(2) by blast
next
  case (Gamma w v w')
  then show ?case using setValue_keeps(3) setValue_defined(3) by blast
qed

lemma h_save_state_copies:
  assumes s: "separated w" and r: "h_save_state w = Inr w'"
  shows "view (store w') (last (h_undo_stack w')) = view (store w) (live w)"
proof -
  from r obtain sn st' where c: "h_current_state (live w) (store w) = Inr (sn, st')"
    and w': "w' = w\<lparr>store := st', h_undo_stack := h_undo_stack w @ [sn], h_redo_stack := []\<rparr>"
    by (cases "h_current_state (live w) (store w)") (auto simp add: h_save_state_def bind_def)
  show ?thesis
    using h_current_state_view(1)[OF c separated_bounded_live[OF s]] by (simp add: w')
qed

lemma import_steps:
  "h_save_state (h_init_window 800 600)
   = Inr ((h_init_window 800 600)
           \<lparr>store := store (h_init_window 800 600) @
                      [ImgList [], Pixmap (QPixmap 800 600 Qt_white),
                       Pixmap (QPixmap 800 600 Qt_transparent), TextList []],
             h_undo_stack := h_undo_stack h_imported_window\<rparr>)"
  "apply_mutation (AppendImage photo photo 300 250 (QRect 300 250 400 300))
     ((h_init_window 800 600)
           \<lparr>store := store (h_init_window 800 600) @
                      [ImgList [], Pixmap (QPixmap 800 600 Qt_white),
                       Pixmap (QPixmap 800 600 Qt_transparent), TextList []],
             h_undo_stack := h_undo_stack h_imported_window\<rparr>)
   = Inr h_imported_window"
  "h_save_state h_imported_window = Inr h_pressed_window"
  by (simp_all add: h_imported_window_def h_pressed_window_def h_init_window_def
      h_save_state_def h_current_state_def copy_image_def copy_pixmap_def copy_qrect_def
      alloc_def bind_def lookup_def Let_def)

lemma hreach_pressed: "hreach env h_pressed_window"
  using hreach.Save[OF hreach.Mutate[OF hreach.Save[OF hreach.Init import_steps(1)]
        import_steps(2)] import_steps(3)] .

lemma scale_step:
  "apply_mutation (SetRect 0 (QRect 300 250 500 375)) h_pressed_window = Inr h_scaled_window"
  by (simp add: h_scaled_window_def h_pressed_window_def h_imported_window_def
      live_image_def bind_def lookup_def)

lemma pressed_rects:
  "stored_rects h_pressed_window = [Some [], Some [QRect 300 250 400 300]]"
  "live_rects h_scaled_window = Some [QRect 300 250 500 375]"
  by (simp_all add: stored_rects_def live_rects_def stored_views_def view_def view_image_def
      h_scaled_window_def h_pressed_window_def h_imported_window_def lookup_def)

text \<open>
  Claim C2. In every state that the history methods and the changes of the live
  document lead to, every snapshot on the undo stack and on the redo stack has a
  value (its images with their displayed pixmaps, original pixmaps, positions and
  rects, the background pixmap, the overlay pixmap, the text objects, the slider
  values), and a change of the live document (painting on the background or on the
  overlay, a rect changed in place or replaced, a position, a displayed pixmap, an
  image appended or deleted, a text object appended, a new background, overlay,
  image list or text list assigned to the window) leaves the value of every stored
  snapshot as it was.
\<close>

theorem stored_snapshots_independent:
  assumes "hreach env w" and "apply_mutation m w = Inr w'"
  shows "stored_views w' = stored_views w \<and> stored_defined w \<and> stored_defined w'"
proof -
  from hreach_invariant[OF assms(1)] have i: "separated w" "stored_defined w" by simp_all
  from mutation_keeps[OF i(1) assms(2)] have "stored_views w' = stored_views w" by simp
  then show ?thesis using i(2) by (simp add: stored_defined_def)
qed

theorem stored_snapshots_independent_witness:
  "hreach simple_qt h_pressed_window
   \<and> apply_mutation (SetRect 0 (QRect 300 250 500 375)) h_pressed_window = Inr h_scaled_window
   \<and> stored_views h_scaled_window = stored_views h_pressed_window
   \<and> stored_defined h_scaled_window
   \<and> stored_rects h_scaled_window = [Some [], Some [QRect 300 250 400 300]]
   \<and> live_rects h_scaled_window = Some [QRect 300 250 500 375]"
  using stored_snapshots_independent[OF hreach_pressed[of simple_qt] scale_step]
    hreach_pressed[of simple_qt] scale_step pressed_rects
  by (simp add: stored_rects_def)

end
